theory Spec2Isabelle
  imports Main "HOL-Library.Word"
begin

section \<open>JavaScript strings\<close>

text \<open>
  A JavaScript string is a sequence of 16-bit code units. Literals of the source are
  written \<open>str ''...''\<close>. \<open>toLowerCase\<close> is modelled on the ASCII letters and leaves
  every other code unit as it is. That is exact where the results below depend on it:
  the identifier captured by the helper's pattern holds ASCII code units only; the
  seniority keywords are ASCII words, none of which can be completed by the lower-case
  form of a code unit above 127; and the Profile model's copy of the extractor is
  evaluated on ASCII URLs only.
\<close>

type_synonym code_unit = "16 word"
type_synonym jsstring = "code_unit list"

definition str :: "string \<Rightarrow> jsstring" where
  "str s = map of_char s"

definition upper_unit :: "code_unit \<Rightarrow> code_unit" where
  "upper_unit u = (if 97 \<le> u \<and> u \<le> 122 then u - 32 else u)"

definition lower_unit :: "code_unit \<Rightarrow> code_unit" where
  "lower_unit u = (if 65 \<le> u \<and> u \<le> 90 then u + 32 else u)"

definition toLowerCase :: "jsstring \<Rightarrow> jsstring" where
  "toLowerCase s = map lower_unit s"

text \<open>What the code throws, with the message of the error.\<close>

datatype js_error = TypeError jsstring | Error jsstring

fun message :: "js_error \<Rightarrow> jsstring" where
  "message (TypeError m) = m"
| "message (Error m) = m"

section \<open>Regular expressions, as far as the two patterns need them\<close>

text \<open>
  A backtracking matcher in the style of the ECMAScript semantics: matching a pattern
  at a state gives the list of end states in the order in which backtracking tries them.
  A state is the rest of the input and the text of capture group 1. The flag \<open>ic\<close> is
  the \<open>i\<close> flag: code units are compared after \<open>canonicalize\<close>, and a class holds a
  code unit when it holds one with the same canonical form.
\<close>

datatype class_item = Single code_unit | Range code_unit code_unit | Word_chars

datatype regex =
    Lit code_unit
  | Class bool "class_item list"
  | Seq regex regex
  | Alt regex regex
  | Plus regex
  | Group regex
  | End_of_input

fun item_holds :: "class_item \<Rightarrow> code_unit \<Rightarrow> bool" where
  "item_holds (Single a) u = (u = a)"
| "item_holds (Range a b) u = (a \<le> u \<and> u \<le> b)"
| "item_holds Word_chars u =
     ((97 \<le> u \<and> u \<le> 122) \<or> (65 \<le> u \<and> u \<le> 90) \<or> (48 \<le> u \<and> u \<le> 57) \<or> u = 95)"

definition canonicalize :: "bool \<Rightarrow> code_unit \<Rightarrow> code_unit" where
  "canonicalize ic u = (if ic then upper_unit u else u)"

definition class_holds :: "bool \<Rightarrow> class_item list \<Rightarrow> code_unit \<Rightarrow> bool" where
  "class_holds ic items u =
     (if ic then list_ex (\<lambda>i. item_holds i (upper_unit u) \<or> item_holds i (lower_unit u)) items
      else list_ex (\<lambda>i. item_holds i u) items)"

type_synonym match_state = "jsstring \<times> jsstring option"

text \<open>
  \<open>Class neg items\<close> is \<open>[...]\<close>, or \<open>[^...]\<close> when \<open>neg\<close> holds. \<open>Plus\<close> is the greedy
  \<open>+\<close>: one more round first, then the shorter match. A round that consumes nothing is
  not repeated (the body of \<open>+\<close> in both patterns always consumes a code unit).
  \<open>End_of_input\<close> is \<open>$\<close> without the \<open>m\<close> flag.
\<close>

function (sequential) rmatch :: "bool \<Rightarrow> regex \<Rightarrow> match_state \<Rightarrow> match_state list" where
  "rmatch ic (Lit c) (s, cap) =
     (case s of [] \<Rightarrow> []
      | u # t \<Rightarrow> if canonicalize ic u = canonicalize ic c then [(t, cap)] else [])"
| "rmatch ic (Class neg items) (s, cap) =
     (case s of [] \<Rightarrow> []
      | u # t \<Rightarrow> if class_holds ic items u \<noteq> neg then [(t, cap)] else [])"
| "rmatch ic (Seq r1 r2) x = concat (map (rmatch ic r2) (rmatch ic r1 x))"
| "rmatch ic (Alt r1 r2) x = rmatch ic r1 x @ rmatch ic r2 x"
| "rmatch ic (Plus r) x =
     concat (map (\<lambda>y. (if length (fst y) < length (fst x) then rmatch ic (Plus r) y else []) @ [y])
                 (rmatch ic r x))"
| "rmatch ic (Group r) (s, cap) =
     map (\<lambda>y. (fst y, Some (take (length s - length (fst y)) s))) (rmatch ic r (s, cap))"
| "rmatch ic End_of_input (s, cap) = (if s = [] then [(s, cap)] else [])"
  by pat_completeness auto
termination
  by (relation "measures [\<lambda>(ic, r, x). size r, \<lambda>(ic, r, x). length (fst x)]") auto

text \<open>
  \<open>String.prototype.match\<close> with a pattern without the \<open>g\<close> flag: the pattern is tried at
  every start index from the left, the end of the input included; the first index where
  it matches gives the result. Of the match array only element 1 is read by the callers:
  \<open>Some None\<close> is a match whose group 1 is undefined.
\<close>

fun js_match :: "bool \<Rightarrow> regex \<Rightarrow> jsstring \<Rightarrow> jsstring option option" where
  "js_match ic r [] = (case rmatch ic r ([], None) of [] \<Rightarrow> None | y # _ \<Rightarrow> Some (snd y))"
| "js_match ic r (u # t) =
     (case rmatch ic r (u # t, None) of [] \<Rightarrow> js_match ic r t | y # _ \<Rightarrow> Some (snd y))"

fun seq_lits :: "jsstring \<Rightarrow> regex \<Rightarrow> regex" where
  "seq_lits [] r = r"
| "seq_lits (c # cs) r = Seq (Lit c) (seq_lits cs r)"

section \<open>The identifier extractor\<close>

text \<open>
  The helper's pattern \<^verbatim>\<open>/linkedin\.com\/in\/([\w\-%.0-9]+)(?:[/?]|$)/i\<close>. In the class,
  45 is the hyphen, 37 the percent sign, 46 the dot; 47 and 63 are \<open>/\<close> and \<open>?\<close>.
\<close>

definition helper_regex :: regex where
  "helper_regex =
     seq_lits (str ''linkedin.com/in/'')
       (Seq (Group (Plus (Class False [Word_chars, Single 45, Single 37, Single 46, Range 48 57])))
            (Alt (Class False [Single 47, Single 63]) End_of_input))"

text \<open>
  The helper: \<open>None\<close> is \<open>null\<close> (or \<open>undefined\<close>), and the empty string is falsy as well.
  Reading \<open>match[1].toLowerCase()\<close> throws a TypeError when group 1 is undefined.
\<close>

definition extractLinkedInId :: "jsstring option \<Rightarrow> js_error + jsstring option" where
  "extractLinkedInId url =
     (case url of
        None \<Rightarrow> Inr None
      | Some s \<Rightarrow>
          if s = [] then Inr None
          else (case js_match True helper_regex s of
                  None \<Rightarrow> Inr None
                | Some None \<Rightarrow> Inl (TypeError (str ''Cannot read properties of undefined''))
                | Some (Some m) \<Rightarrow> Inr (Some (toLowerCase m))))"

text \<open>
  The Profile model's own copy, run before every save, with the pattern
  \<^verbatim>\<open>/linkedin\.com\/in\/([^/?]+)/\<close> and no flag.
\<close>

definition model_regex :: regex where
  "model_regex =
     seq_lits (str ''linkedin.com/in/'') (Group (Plus (Class True [Single 47, Single 63])))"

definition model_extractLinkedInId :: "jsstring option \<Rightarrow> js_error + jsstring option" where
  "model_extractLinkedInId url =
     (case url of
        None \<Rightarrow> Inr None
      | Some s \<Rightarrow>
          if s = [] then Inr None
          else (case js_match False model_regex s of
                  None \<Rightarrow> Inr None
                | Some None \<Rightarrow> Inl (TypeError (str ''Cannot read properties of undefined''))
                | Some (Some m) \<Rightarrow> Inr (Some (toLowerCase m))))"

text \<open>
  The claim's words for the helper. \<open>id_unit\<close>: a word character, a hyphen, a percent
  sign, a dot or a digit. \<open>identifier_at t run\<close>: the text \<open>t\<close> starts with
  \<open>linkedin.com/in/\<close> in any mix of cases, then comes the non-empty run of such code
  units, and after the run comes \<open>/\<close>, \<open>?\<close> or the end of the string.
\<close>

definition id_unit :: "code_unit \<Rightarrow> bool" where
  "id_unit u \<longleftrightarrow>
     (97 \<le> u \<and> u \<le> 122) \<or> (65 \<le> u \<and> u \<le> 90) \<or> (48 \<le> u \<and> u \<le> 57) \<or>
     u = 95 \<or> u = 45 \<or> u = 37 \<or> u = 46"

definition same_ignoring_case :: "jsstring \<Rightarrow> jsstring \<Rightarrow> bool" where
  "same_ignoring_case a b \<longleftrightarrow> map lower_unit a = map lower_unit b"

definition identifier_at :: "jsstring \<Rightarrow> jsstring \<Rightarrow> bool" where
  "identifier_at t run \<longleftrightarrow>
     (\<exists>lk post. t = lk @ run @ post \<and> same_ignoring_case lk (str ''linkedin.com/in/'') \<and>
        run \<noteq> [] \<and> list_all id_unit run \<and> (post = [] \<or> hd post = 47 \<or> hd post = 63))"

text \<open>
  Notions for the proofs about the helper's pattern: the rests of the input after each
  non-empty run of code units with a property, longest run first; the class of the
  pattern as a predicate; what may follow the run; the literal part of the pattern at
  the start of a text; a match of the whole pattern at the start of a text.
\<close>

fun run_ends :: "('a \<Rightarrow> bool) \<Rightarrow> 'a list \<Rightarrow> 'a list list" where
  "run_ends P [] = []"
| "run_ends P (u # t) = (if P u then run_ends P t @ [t] else [])"

definition idc :: "code_unit \<Rightarrow> bool" where
  "idc u = (class_holds True [Word_chars, Single 45, Single 37, Single 46, Range 48 57] u \<noteq> False)"

definition after_ok :: "jsstring \<Rightarrow> bool" where
  "after_ok r \<longleftrightarrow> r = [] \<or> hd r = 47 \<or> hd r = 63"

definition starts :: "jsstring \<Rightarrow> bool" where
  "starts t \<longleftrightarrow> 16 \<le> length t \<and> map upper_unit (take 16 t) = map upper_unit (str ''linkedin.com/in/'')"

definition matches_here :: "jsstring \<Rightarrow> bool" where
  "matches_here t \<longleftrightarrow>
     starts t \<and> takeWhile idc (drop 16 t) \<noteq> [] \<and> after_ok (dropWhile idc (drop 16 t))"

section \<open>More of the JavaScript string library\<close>

text \<open>
  \<open>trim\<close> removes the white space and line terminators of ECMAScript from both ends:
  tab, line feed, vertical tab, form feed, carriage return, space, no-break space,
  U+1680, U+2000 to U+200A, U+2028, U+2029, U+202F, U+205F, U+3000 and U+FEFF.
\<close>

definition is_ws :: "code_unit \<Rightarrow> bool" where
  "is_ws u \<longleftrightarrow>
     (9 \<le> u \<and> u \<le> 13) \<or> u = 32 \<or> u = 160 \<or> u = 5760 \<or> (8192 \<le> u \<and> u \<le> 8202) \<or>
     u = 8232 \<or> u = 8233 \<or> u = 8239 \<or> u = 8287 \<or> u = 12288 \<or> u = 65279"

definition trim :: "jsstring \<Rightarrow> jsstring" where
  "trim s = rev (dropWhile is_ws (rev (dropWhile is_ws s)))"

text \<open>\<open>js_includes s k\<close> is \<open>s.includes(k)\<close>: \<open>k\<close> occurs in \<open>s\<close> at some index.\<close>

fun js_includes :: "jsstring \<Rightarrow> jsstring \<Rightarrow> bool" where
  "js_includes [] k = (k = [])"
| "js_includes (u # t) k = (take (length k) (u # t) = k \<or> js_includes t k)"

text \<open>
  \<open>a || d\<close> for a field \<open>a\<close> that is a string or absent and a string \<open>d\<close>: an absent field
  and the empty string are falsy.
\<close>

definition or_str :: "jsstring option \<Rightarrow> jsstring \<Rightarrow> jsstring" where
  "or_str a d = (case a of None \<Rightarrow> d | Some s \<Rightarrow> if s = [] then d else s)"

section \<open>The profile normalizer\<close>

text \<open>
  The third-party payload, as far as the normalizer reads it for the fields modelled
  here. Every field may be absent (\<open>None\<close>). An entry of the skills, courses and
  certifications arrays is a string or an object with optional \<open>name\<close> and \<open>title\<close>.
  Years are numbers of the payload, the year \<open>0\<close> being falsy.
\<close>

datatype entry = Str jsstring | Obj "jsstring option" "jsstring option"

record js_date =
  month :: "int option"
  year :: "int option"

record time_period =
  startDate :: "js_date option"
  endDate :: "js_date option"

record position =
  title :: "jsstring option"
  pos_companyName :: "jsstring option"
  timePeriod :: "time_period option"

record linkedin_profile =
  firstName :: "jsstring option"
  lastName :: "jsstring option"
  fullName :: "jsstring option"
  li_jobTitle :: "jsstring option"
  occupation :: "jsstring option"
  companyName :: "jsstring option"
  positions :: "position list option"
  li_skills :: "entry list option"
  courses :: "entry list option"
  certifications :: "entry list option"
  li_phone :: "jsstring option"
  li_email :: "jsstring option"
  inputUrl :: "jsstring option"
  li_url :: "jsstring option"
  li_linkedinUrl :: "jsstring option"

text \<open>One validated descriptor of the request: \<open>profileInput\<close>.\<close>

record profile_input =
  in_url :: jsstring
  in_phone :: jsstring
  in_email :: jsstring
  in_extraLinks :: "jsstring list"

text \<open>
  The normalized record. The fields \<open>location\<close>, \<open>industry\<close>, \<open>education\<close>,
  \<open>workExperience\<close>, \<open>avatar\<close> and \<open>companySize\<close> of the source are texts rendered from
  the payload that nothing modelled here reads; they are left out.
\<close>

record contact =
  name :: jsstring
  jobTitle :: jsstring
  company :: jsstring
  experience :: int
  seniorityLevel :: jsstring
  skills :: "jsstring list"
  email :: jsstring
  phone :: jsstring
  uploadedBy :: jsstring
  linkedinUrl :: jsstring
  extraLinks :: "jsstring list"

text \<open>\<open>typeof e === 'string' ? e : e.name || e.title || ''\<close>\<close>

fun entry_name :: "entry \<Rightarrow> jsstring" where
  "entry_name (Str s) = s"
| "entry_name (Obj n t) = or_str n (or_str t [])"

text \<open>\<open>arr.map(...).filter(skill => skill.trim())\<close>, for an array that is present.\<close>

definition named_entries :: "entry list \<Rightarrow> jsstring list" where
  "named_entries arr = filter (\<lambda>skill. trim skill \<noteq> []) (map entry_name arr)"

text \<open>\<open>[...new Set(skills)]\<close>: a Set keeps its values in the order of their first insertion.\<close>

definition set_add :: "'a list \<Rightarrow> 'a \<Rightarrow> 'a list" where
  "set_add acc x = (if x \<in> set acc then acc else acc @ [x])"

definition set_values :: "'a list \<Rightarrow> 'a list" where
  "set_values xs = foldl set_add [] xs"

definition collect_skills :: "linkedin_profile \<Rightarrow> jsstring list" where
  "collect_skills p =
     (let skills0 = [];
          skills1 = (case li_skills p of None \<Rightarrow> skills0
                     | Some arr \<Rightarrow> skills0 @ named_entries arr);
          skills2 = (case courses p of None \<Rightarrow> skills1
                     | Some arr \<Rightarrow> skills1 @ named_entries arr);
          skills3 = (case certifications p of None \<Rightarrow> skills2
                     | Some arr \<Rightarrow> skills2 @ take 10 (named_entries arr))
      in take 25 (set_values skills3))"

text \<open>
  The start year of a position, when \<open>timePeriod\<close>, \<open>startDate\<close> and a truthy \<open>year\<close> are
  all there; the loop that keeps the earliest of them; the years of experience.
\<close>

definition start_year :: "position \<Rightarrow> int option" where
  "start_year pos =
     (case timePeriod pos of None \<Rightarrow> None
      | Some tp \<Rightarrow> (case startDate tp of None \<Rightarrow> None
          | Some d \<Rightarrow> (case year d of None \<Rightarrow> None
              | Some y \<Rightarrow> if y = 0 then None else Some y)))"

definition earlier_start :: "int option \<Rightarrow> position \<Rightarrow> int option" where
  "earlier_start earliestStartYear pos =
     (case start_year pos of None \<Rightarrow> earliestStartYear
      | Some y \<Rightarrow>
          (case earliestStartYear of None \<Rightarrow> Some y
           | Some e \<Rightarrow> if e = 0 \<or> y < e then Some y else Some e))"

definition experienceYears :: "int \<Rightarrow> linkedin_profile \<Rightarrow> int" where
  "experienceYears currentYear p =
     (case positions p of None \<Rightarrow> 0
      | Some ps \<Rightarrow>
          (case foldl earlier_start None ps of None \<Rightarrow> 0
           | Some e \<Rightarrow> if e = 0 then 0 else max 0 (currentYear - e)))"

text \<open>\<open>linkedInProfile.positions?.[0]\<close>\<close>

definition first_position :: "linkedin_profile \<Rightarrow> position option" where
  "first_position p =
     (case positions p of None \<Rightarrow> None | Some [] \<Rightarrow> None | Some (pos # _) \<Rightarrow> Some pos)"

definition job_title :: "linkedin_profile \<Rightarrow> jsstring" where
  "job_title p =
     or_str (li_jobTitle p) (or_str (occupation p)
       (or_str (case first_position p of None \<Rightarrow> None | Some pos \<Rightarrow> title pos) []))"

definition seniority :: "jsstring \<Rightarrow> int \<Rightarrow> jsstring" where
  "seniority job years =
     (let titleLower = toLowerCase job in
      if js_includes titleLower (str ''ceo'') \<or> js_includes titleLower (str ''cto'') \<or>
         js_includes titleLower (str ''cfo'') \<or> js_includes titleLower (str ''chief'')
      then str ''C-Level''
      else if js_includes titleLower (str ''vp'') \<or> js_includes titleLower (str ''vice president'')
      then str ''VP''
      else if js_includes titleLower (str ''director'') \<or> js_includes titleLower (str ''manager'')
      then str ''Director''
      else if js_includes titleLower (str ''senior'') \<or> js_includes titleLower (str ''lead'') \<or>
              js_includes titleLower (str ''principal'')
      then str ''Senior''
      else if js_includes titleLower (str ''junior'') \<or> years < 2
      then str ''Entry-level''
      else str ''Mid-level'')"

text \<open>
  The normalizer. It throws on a missing payload. \<open>currentYear\<close> is what
  \<open>new Date().getFullYear()\<close> returns at the call.
\<close>

definition transformLinkedInDataWithPhone ::
  "int \<Rightarrow> linkedin_profile option \<Rightarrow> jsstring \<Rightarrow> profile_input \<Rightarrow> js_error + contact" where
  "transformLinkedInDataWithPhone currentYear linkedInProfile userId profileInput =
     (case linkedInProfile of
        None \<Rightarrow> Inl (Error (str ''No profile data received''))
      | Some p \<Rightarrow>
          Inr \<lparr> name = or_str (Some (trim (or_str (firstName p) [] @ str '' '' @ or_str (lastName p) [])))
                        (or_str (fullName p) []),
                jobTitle = job_title p,
                company = or_str (companyName p)
                            (or_str (case first_position p of None \<Rightarrow> None
                                     | Some pos \<Rightarrow> pos_companyName pos) []),
                experience = experienceYears currentYear p,
                seniorityLevel = seniority (job_title p) (experienceYears currentYear p),
                skills = collect_skills p,
                email = or_str (Some (in_email profileInput)) (or_str (li_email p) []),
                phone = or_str (Some (in_phone profileInput)) (or_str (li_phone p) []),
                uploadedBy = userId,
                linkedinUrl = or_str (inputUrl p) (or_str (li_url p)
                                (or_str (li_linkedinUrl p) (in_url profileInput))),
                extraLinks = in_extraLinks profileInput \<rparr>)"

text \<open>
  The claims' words for the normalizer. \<open>contains_word text w\<close>: \<open>w\<close> occurs in \<open>text\<close>,
  cases ignored. \<open>present\<close>: a field that is there and not empty.
  \<open>effective_job_title\<close>: the payload's job title, else its occupation, else the title
  of its first position, else the empty string.
\<close>

definition contains_word :: "jsstring \<Rightarrow> jsstring \<Rightarrow> bool" where
  "contains_word text w \<longleftrightarrow> (\<exists>pre mid post. text = pre @ mid @ post \<and> same_ignoring_case mid w)"

definition present :: "jsstring option \<Rightarrow> bool" where
  "present a \<longleftrightarrow> a \<noteq> None \<and> a \<noteq> Some []"

definition effective_job_title :: "linkedin_profile \<Rightarrow> jsstring" where
  "effective_job_title p =
     (if present (li_jobTitle p) then the (li_jobTitle p)
      else if present (occupation p) then the (occupation p)
      else (case positions p of
              Some (pos # _) \<Rightarrow> if present (title pos) then the (title pos) else []
            | _ \<Rightarrow> []))"

text \<open>
  \<open>blank\<close>: nothing but white space. \<open>first_occurrences\<close>: the entries that do not occur
  earlier in the list, in their order. \<open>entries_of\<close>: the names of the entries of an
  array of the payload (none when the array is absent), the blank ones discarded.
\<close>

definition blank :: "jsstring \<Rightarrow> bool" where
  "blank s \<longleftrightarrow> list_all is_ws s"

definition first_occurrences :: "'a list \<Rightarrow> 'a list" where
  "first_occurrences xs =
     map (\<lambda>i. xs ! i) (filter (\<lambda>i. xs ! i \<notin> set (take i xs)) [0..<length xs])"

definition entries_of :: "entry list option \<Rightarrow> jsstring list" where
  "entries_of a =
     (case a of None \<Rightarrow> []
      | Some arr \<Rightarrow> filter (\<lambda>s. \<not> blank s) (map entry_name arr))"

text \<open>The entries of a list that are neither in \<open>seen\<close> nor earlier in the list.\<close>

fun fresh_from :: "'a set \<Rightarrow> 'a list \<Rightarrow> 'a list" where
  "fresh_from seen [] = []"
| "fresh_from seen (x # xs) =
     (if x \<in> seen then fresh_from seen xs else x # fresh_from (insert x seen) xs)"

text \<open>Payloads and a descriptor used as concrete inputs below.\<close>

definition no_fields :: linkedin_profile where
  "no_fields =
     \<lparr> firstName = None, lastName = None, fullName = None, li_jobTitle = None,
       occupation = None, companyName = None, positions = None, li_skills = None,
       courses = None, certifications = None, li_phone = None, li_email = None,
       inputUrl = None, li_url = None, li_linkedinUrl = None \<rparr>"

definition no_contact_info :: "jsstring \<Rightarrow> profile_input" where
  "no_contact_info u = \<lparr> in_url = u, in_phone = [], in_email = [], in_extraLinks = [] \<rparr>"

definition engineer_since_2018 :: linkedin_profile where
  "engineer_since_2018 =
     no_fields \<lparr> firstName := Some (str ''Ada''),
       positions := Some [\<lparr> title = Some (str ''Engineer''), pos_companyName = Some (str ''Acme''),
         timePeriod = Some \<lparr> startDate = Some \<lparr> month = None, year = Some 2018 \<rparr>,
                              endDate = None \<rparr> \<rparr>] \<rparr>"

definition many_skills :: linkedin_profile where
  "many_skills =
     engineer_since_2018
       \<lparr> li_skills := Some (map Str (map str [''s1'', ''s2'', ''s3'', ''s4'', ''s5'', ''s6'', '' '',
            ''s7'', ''s8'', ''s1'', ''s9'', ''s10'', ''s11'', ''s12''])),
         courses := Some [Obj (Some (str ''c1'')) None, Obj None (Some (str ''c2'')),
            Obj (Some []) (Some (str ''c3'')), Obj None None, Obj (Some (str ''c4'')) (Some (str ''x'')),
            Str (str ''c5''), Str (str ''c6''), Str (str ''s2''), Str (str ''c7''), Str (str ''c8'')],
         certifications := Some (map Str (map str [''k1'', ''k2'', ''k3'', ''k4'', ''k5'', ''k6'',
            ''k7'', ''k8'', ''k9'', ''k10'', ''k11'', ''k12''])) \<rparr>"

section \<open>The dashboard\<close>

text \<open>
  One dashboard per user. \<open>unlockedContactIds\<close> may be missing in a stored document,
  which the routes test for. Identifiers of users and profiles are strings.
\<close>

record dashboard =
  d_userId :: jsstring
  availablePoints :: int
  totalContacts :: int
  unlockedProfiles :: int
  myUploads :: int
  uploadedProfileIds :: "jsstring list"
  unlockedContactIds :: "jsstring list option"
  recentActivity :: "jsstring list"
  updatedAt :: nat

text \<open>
  The state of the server: the dashboards by user, the stored profiles, and the bodies
  that were posted to the \<open>/profiles\<close> endpoint, in the order of the calls. That endpoint
  is another operation of the server; what it does with a body is not part of the
  operations modelled here.
\<close>

record server_state =
  dashboards :: "jsstring \<rightharpoonup> dashboard"
  profiles :: "contact list"
  profile_posts :: "contact list"

section \<open>The scrape endpoint\<close>

text \<open>
  The request body: \<open>profilesData\<close> (\<open>None\<close> when it is missing or no array) and
  \<open>userId\<close>. A descriptor carries optional strings and an optional array of links.
\<close>

record profile_desc =
  d_url :: "jsstring option"
  d_phone :: "jsstring option"
  d_email :: "jsstring option"
  d_extraLinks :: "jsstring list option"

record scrape_request =
  req_profilesData :: "profile_desc list option"
  req_userId :: "jsstring option"

text \<open>
  The answer to an awaited request: the request or the reading of its body throws an
  error with a message, or the response is not \<open>ok\<close> and has a status, or it is \<open>ok\<close>
  and has the body the code reads.
\<close>

datatype 'a reply = Fails jsstring | Not_ok nat | Ok 'a

record run_data =
  run_id :: jsstring
  defaultDatasetId :: jsstring

text \<open>
  What the handler reads from outside: the API token of the environment, the answers of
  the scraping service (to the start of a run with the given URLs, to the status request
  number \<open>n\<close>, to the request for the items), the answer of the \<open>/profiles\<close> endpoint to a
  body given the bodies posted before (\<open>None\<close>: saved; \<open>Some m\<close>: the call fails and the
  error thrown has message \<open>m\<close>), and the current year.
\<close>

record env =
  apiToken :: "jsstring option"
  start_run :: "jsstring list \<Rightarrow> run_data reply"
  run_status :: "nat \<Rightarrow> jsstring reply"
  dataset_items :: "linkedin_profile option list reply"
  save_profile :: "contact list \<Rightarrow> contact \<Rightarrow> jsstring option"
  year_now :: int

definition is_profile_url :: "jsstring \<Rightarrow> bool" where
  "is_profile_url u \<longleftrightarrow>
     js_includes u (str ''linkedin.com/in/'') \<or> js_includes u (str ''linkedin.com/pub/'')"

definition validProfiles_of :: "profile_desc list \<Rightarrow> profile_input list" where
  "validProfiles_of ds =
     map (\<lambda>profile.
            \<lparr> in_url = trim (or_str (d_url profile) []),
              in_phone = trim (or_str (d_phone profile) []),
              in_email = trim (or_str (d_email profile) []),
              in_extraLinks = (case d_extraLinks profile of None \<Rightarrow> []
                               | Some links \<Rightarrow> filter (\<lambda>l. l \<noteq> []) links) \<rparr>)
         (filter (\<lambda>profile. case d_url profile of None \<Rightarrow> False
                              | Some u \<Rightarrow> u \<noteq> [] \<and> is_profile_url u) ds)"

text \<open>A number in a template string.\<close>

fun decimal :: "nat \<Rightarrow> jsstring" where
  "decimal n = (if n < 10 then [of_nat (48 + n)]
                else decimal (n div 10) @ [of_nat (48 + n mod 10)])"

declare decimal.simps [simp del]

text \<open>
  The polling loop: while the status is \<open>RUNNING\<close> and fewer than \<open>maxAttempts\<close> requests
  were made, wait 3000 ms and ask again. It returns the last status, the number of
  requests and the time waited.
\<close>

definition maxAttempts :: nat where
  "maxAttempts = 60"

function poll :: "(nat \<Rightarrow> jsstring reply) \<Rightarrow> jsstring \<Rightarrow> nat \<Rightarrow> nat
    \<Rightarrow> js_error + jsstring \<times> nat \<times> nat" where
  "poll status_of runStatus attempts waited =
     (if runStatus = str ''RUNNING'' \<and> attempts < maxAttempts
      then (case status_of attempts of
              Fails m \<Rightarrow> Inl (TypeError m)
            | Not_ok _ \<Rightarrow> Inl (Error (str ''Failed to check scraping status''))
            | Ok status \<Rightarrow> poll status_of status (attempts + 1) (waited + 3000))
      else Inr (runStatus, attempts, waited))"
  by pat_completeness auto
termination
  by (relation "measure (\<lambda>(status_of, runStatus, attempts, waited). maxAttempts - attempts)") auto

declare poll.simps [simp del]

text \<open>Start of the run, polling, fetching of the items: the part before the items are processed.\<close>

definition scrape :: "env \<Rightarrow> profile_input list \<Rightarrow> js_error + linkedin_profile option list" where
  "scrape e validProfiles =
     (case start_run e (map in_url validProfiles) of
        Fails m \<Rightarrow> Inl (TypeError m)
      | Not_ok status \<Rightarrow> Inl (Error (str ''LinkedIn scraping service failed: '' @ decimal status))
      | Ok runData \<Rightarrow>
          (case poll (run_status e) (str ''RUNNING'') 0 0 of
             Inl err \<Rightarrow> Inl err
           | Inr (runStatus, attempts, waited) \<Rightarrow>
               if runStatus \<noteq> str ''SUCCEEDED''
               then Inl (Error (str ''Scraping failed with status: '' @ runStatus))
               else (case dataset_items e of
                       Fails m \<Rightarrow> Inl (TypeError m)
                     | Not_ok status \<Rightarrow>
                         Inl (Error (str ''Failed to fetch scraping results: '' @ decimal status))
                     | Ok scrapedData \<Rightarrow> Inr scrapedData)))"

text \<open>The result of one item, the counters of the batch, and the batch with the saves made.\<close>

datatype item_result =
    Item_success jsstring jsstring jsstring jsstring jsstring
  | Item_failed jsstring jsstring

record scrape_results =
  total :: nat
  processed :: nat
  successful :: nat
  failed :: nat
  results :: "item_result list"

record batch =
  res :: scrape_results
  saved :: "contact list"

definition hasMinimumData :: "contact \<Rightarrow> bool" where
  "hasMinimumData contactData \<longleftrightarrow>
     name contactData \<noteq> [] \<and>
     (experience contactData > 0 \<or> company contactData \<noteq> [] \<or> jobTitle contactData \<noteq> [])"

definition insufficient :: jsstring where
  "insufficient =
     str ''Insufficient profile data - profile must have a name and either experience, company, or job title''"

text \<open>The \<open>catch\<close> of one item.\<close>

definition item_failed :: "profile_input \<Rightarrow> jsstring \<Rightarrow> batch \<Rightarrow> batch" where
  "item_failed profileInput msg b =
     b \<lparr> res := (res b) \<lparr> failed := failed (res b) + 1,
                          results := results (res b) @ [Item_failed (in_url profileInput) msg] \<rparr> \<rparr>"

definition item_saved :: "profile_input \<Rightarrow> contact \<Rightarrow> batch \<Rightarrow> batch" where
  "item_saved profileInput contactData b =
     b \<lparr> res := (res b) \<lparr> successful := successful (res b) + 1,
                          results := results (res b) @
                            [Item_success (in_url profileInput) (name contactData)
                               (jobTitle contactData) (company contactData) (phone contactData)] \<rparr> \<rparr>"

text \<open>The body of the loop over the validated descriptors.\<close>

definition process_profile ::
  "env \<Rightarrow> jsstring \<Rightarrow> profile_input \<Rightarrow> linkedin_profile option \<Rightarrow> batch \<Rightarrow> batch" where
  "process_profile e uid profileInput profileData b0 =
     (let b = b0 \<lparr> res := (res b0) \<lparr> processed := processed (res b0) + 1 \<rparr> \<rparr> in
      case profileData of
        None \<Rightarrow> item_failed profileInput (str ''No profile data received'') b
      | Some p \<Rightarrow>
          (case transformLinkedInDataWithPhone (year_now e) (Some p) uid profileInput of
             Inl err \<Rightarrow> item_failed profileInput (message err) b
           | Inr contactData \<Rightarrow>
               if \<not> hasMinimumData contactData then item_failed profileInput insufficient b
               else (case save_profile e (saved b) contactData of
                       Some m \<Rightarrow> item_failed profileInput m (b \<lparr> saved := saved b @ [contactData] \<rparr>)
                     | None \<Rightarrow>
                         item_saved profileInput contactData
                           (b \<lparr> saved := saved b @ [contactData] \<rparr>))))"

text \<open>The loop: item \<open>i\<close> of the answer belongs to descriptor \<open>i\<close>; a missing item is \<open>undefined\<close>.\<close>

fun process_all ::
  "env \<Rightarrow> jsstring \<Rightarrow> linkedin_profile option list \<Rightarrow> nat \<Rightarrow> profile_input list \<Rightarrow> batch
    \<Rightarrow> batch" where
  "process_all e uid scrapedData i [] b = b"
| "process_all e uid scrapedData i (profileInput # rest) b =
     process_all e uid scrapedData (i + 1) rest
       (process_profile e uid profileInput
          (if i < length scrapedData then scrapedData ! i else None) b)"

text \<open>The \<open>catch\<close> of the scraping service error: every descriptor is marked as failed.\<close>

definition service_failed :: jsstring where
  "service_failed = str ''LinkedIn scraping service failed''"

definition mark_failed :: "batch \<Rightarrow> profile_input \<Rightarrow> batch" where
  "mark_failed b profile =
     b \<lparr> res := (res b) \<lparr> processed := processed (res b) + 1, failed := failed (res b) + 1,
                          results := results (res b) @ [Item_failed (in_url profile) service_failed] \<rparr> \<rparr>"

text \<open>
  The response: an error status with its message, or status 200 with \<open>success: true\<close>,
  the results and \<open>pointsEarned\<close>. The handler reads no dashboard and writes none; its
  only effect on the state is the list of bodies posted to \<open>/profiles\<close>.
\<close>

datatype response = Rejected nat jsstring | Scraped scrape_results nat

definition scrape_linkedin :: "env \<Rightarrow> scrape_request \<Rightarrow> server_state \<Rightarrow> response \<times> server_state" where
  "scrape_linkedin e req st =
     (case req_profilesData req of
        None \<Rightarrow> (Rejected 400 (str ''ProfilesData array is required and cannot be empty''), st)
      | Some ds \<Rightarrow>
          if ds = [] then (Rejected 400 (str ''ProfilesData array is required and cannot be empty''), st)
          else if or_str (req_userId req) [] = [] then (Rejected 400 (str ''User ID is required''), st)
          else
            (let validProfiles = validProfiles_of ds in
             if validProfiles = [] then (Rejected 400 (str ''No valid LinkedIn URLs found''), st)
             else if or_str (apiToken e) [] = []
             then (Rejected 500 (str ''LinkedIn scraping service not configured''), st)
             else
               (let b0 = \<lparr> res = \<lparr> total = length validProfiles, processed = 0, successful = 0,
                                    failed = 0, results = [] \<rparr>,
                            saved = [] \<rparr>;
                    b = (case scrape e validProfiles of
                           Inl scrapingError \<Rightarrow> foldl mark_failed b0 validProfiles
                         | Inr scrapedData \<Rightarrow>
                             process_all e (or_str (req_userId req) []) scrapedData 0 validProfiles b0)
                in (Scraped (res b) (successful (res b) * 10),
                    st \<lparr> profile_posts := profile_posts st @ saved b \<rparr>))))"

section \<open>The dashboard routes\<close>

text \<open>\<open>GET /\<close>: the dashboard of the user, created with these values when there is none.\<close>

definition new_dashboard :: "nat \<Rightarrow> jsstring \<Rightarrow> dashboard" where
  "new_dashboard now uid =
     \<lparr> d_userId = uid, availablePoints = 100, totalContacts = 0, unlockedProfiles = 0,
       myUploads = 0, uploadedProfileIds = [], unlockedContactIds = Some [],
       recentActivity = [str ''Welcome! Dashboard created.''], updatedAt = now \<rparr>"

definition countDocuments_uploadedBy :: "jsstring \<Rightarrow> contact list \<Rightarrow> nat" where
  "countDocuments_uploadedBy uid ps = length (filter (\<lambda>p. uploadedBy p = uid) ps)"

definition get_dashboard :: "nat \<Rightarrow> jsstring \<Rightarrow> server_state \<Rightarrow> dashboard \<times> server_state" where
  "get_dashboard now uid st =
     (let found = dashboards st uid;
          dashboard0 = (case found of None \<Rightarrow> new_dashboard now uid | Some d \<Rightarrow> d);
          st1 = (case found of None \<Rightarrow> st \<lparr> dashboards := (dashboards st)(uid \<mapsto> dashboard0) \<rparr>
                 | Some d \<Rightarrow> st);
          actualUploads = int (countDocuments_uploadedBy uid (profiles st1));
          actualUnlockedCount = (case unlockedContactIds dashboard0 of None \<Rightarrow> 0
                                 | Some ids \<Rightarrow> int (length ids))
      in if myUploads dashboard0 \<noteq> actualUploads \<or> unlockedProfiles dashboard0 \<noteq> actualUnlockedCount
         then (let d = dashboard0 \<lparr> myUploads := actualUploads,
                                     unlockedProfiles := actualUnlockedCount,
                                     totalContacts := actualUploads \<rparr>
               in (d, st1 \<lparr> dashboards := (dashboards st1)(uid \<mapsto> d) \<rparr>))
         else (dashboard0, st1))"

text \<open>
  \<open>POST /\<close>: the counters of the body replace the stored ones where the body has them;
  the three lists are replaced in any case, by the empty list where the body has none.
  The Dashboard schema is not among the sources: \<open>fresh\<close> stands for the document an
  upsert starts from when the user has no dashboard.
\<close>

record dashboard_update =
  u_availablePoints :: "int option"
  u_totalContacts :: "int option"
  u_unlockedProfiles :: "int option"
  u_myUploads :: "int option"
  u_unlockedContactIds :: "jsstring list option"
  u_uploadedProfileIds :: "jsstring list option"
  u_recentActivity :: "jsstring list option"

definition or_list :: "'a list option \<Rightarrow> 'a list" where
  "or_list a = (case a of None \<Rightarrow> [] | Some xs \<Rightarrow> xs)"

definition or_keep :: "'a option \<Rightarrow> 'a \<Rightarrow> 'a" where
  "or_keep a old = (case a of None \<Rightarrow> old | Some v \<Rightarrow> v)"

definition update_dashboard ::
  "(jsstring \<Rightarrow> dashboard) \<Rightarrow> nat \<Rightarrow> jsstring \<Rightarrow> dashboard_update \<Rightarrow> server_state
    \<Rightarrow> dashboard \<times> server_state" where
  "update_dashboard fresh now uid body st =
     (let d0 = (case dashboards st uid of None \<Rightarrow> fresh uid | Some d \<Rightarrow> d);
          d = d0 \<lparr> availablePoints := or_keep (u_availablePoints body) (availablePoints d0),
                   totalContacts := or_keep (u_totalContacts body) (totalContacts d0),
                   unlockedProfiles := or_keep (u_unlockedProfiles body) (unlockedProfiles d0),
                   myUploads := or_keep (u_myUploads body) (myUploads d0),
                   unlockedContactIds := Some (or_list (u_unlockedContactIds body)),
                   uploadedProfileIds := or_list (u_uploadedProfileIds body),
                   recentActivity := or_list (u_recentActivity body),
                   updatedAt := now \<rparr>
      in (d, st \<lparr> dashboards := (dashboards st)(uid \<mapsto> d) \<rparr>))"

text \<open>
  \<open>PATCH /activity\<close>. The update operator \<open>$push\<close> with \<open>$each\<close> and \<open>$slice: n\<close> appends
  the values and then keeps the last \<open>-n\<close> elements for a negative \<open>n\<close>, the first \<open>n\<close>
  otherwise. On an upsert the array starts empty.
\<close>

definition push_each_slice :: "'a list \<Rightarrow> 'a list \<Rightarrow> int \<Rightarrow> 'a list" where
  "push_each_slice arr each n =
     (let xs = arr @ each
      in if n < 0 then drop (length xs - nat (- n)) xs else take (nat n) xs)"

datatype activity_response = Activity_rejected nat jsstring | Activity_added jsstring nat

definition add_activity ::
  "(jsstring \<Rightarrow> dashboard) \<Rightarrow> nat \<Rightarrow> jsstring \<Rightarrow> jsstring option \<Rightarrow> server_state
    \<Rightarrow> activity_response \<times> server_state" where
  "add_activity fresh now uid activity st =
     (if or_str activity [] = [] then (Activity_rejected 400 (str ''Activity message required''), st)
      else
        (let d0 = (case dashboards st uid of None \<Rightarrow> (fresh uid) \<lparr> recentActivity := [] \<rparr>
                   | Some d \<Rightarrow> d);
             d = d0 \<lparr> recentActivity := push_each_slice (recentActivity d0) [or_str activity []] (- 20),
                      updatedAt := now \<rparr>
         in (Activity_added (or_str activity []) (length (recentActivity d)),
             st \<lparr> dashboards := (dashboards st)(uid \<mapsto> d) \<rparr>)))"

text \<open>A sequence of such requests of one user, and the stored log of a user.\<close>

definition add_activities ::
  "(jsstring \<Rightarrow> dashboard) \<Rightarrow> nat \<Rightarrow> jsstring \<Rightarrow> jsstring list \<Rightarrow> server_state \<Rightarrow> server_state" where
  "add_activities fresh now uid msgs st =
     foldl (\<lambda>s a. snd (add_activity fresh now uid (Some a) s)) st msgs"

definition activity_log :: "jsstring \<Rightarrow> server_state \<Rightarrow> jsstring list" where
  "activity_log uid st = (case dashboards st uid of None \<Rightarrow> [] | Some d \<Rightarrow> recentActivity d)"

definition no_data :: server_state where
  "no_data = \<lparr> dashboards = Map.empty, profiles = [], profile_posts = [] \<rparr>"

definition only_totalContacts :: "int \<Rightarrow> dashboard_update" where
  "only_totalContacts n =
     \<lparr> u_availablePoints = None, u_totalContacts = Some n, u_unlockedProfiles = None,
       u_myUploads = None, u_unlockedContactIds = None, u_uploadedProfileIds = None,
       u_recentActivity = None \<rparr>"

text \<open>\<open>is_success\<close>: a result with status \<open>success\<close>.\<close>

fun is_success :: "item_result \<Rightarrow> bool" where
  "is_success (Item_success u n j c ph) = True"
| "is_success (Item_failed u m) = False"

text \<open>
  Concrete surroundings used below: a service whose run never leaves \<open>RUNNING\<close>, one
  whose run succeeds at the third status request and returns the given items, with a
  \<open>/profiles\<close> endpoint that saves every body; a request with two profile URLs and one
  other URL; a state where user \<open>u1\<close> has a new dashboard.
\<close>

definition stuck_service :: env where
  "stuck_service =
     \<lparr> apiToken = Some (str ''token''),
       start_run = (\<lambda>urls. Ok \<lparr> run_id = str ''r1'', defaultDatasetId = str ''d1'' \<rparr>),
       run_status = (\<lambda>n. Ok (str ''RUNNING'')),
       dataset_items = Ok [],
       save_profile = (\<lambda>posted c. None),
       year_now = 2024 \<rparr>"

definition working_service :: "linkedin_profile option list \<Rightarrow> env" where
  "working_service items =
     stuck_service \<lparr> run_status := (\<lambda>n. Ok (if n < 2 then str ''RUNNING'' else str ''SUCCEEDED'')),
                     dataset_items := Ok items \<rparr>"

definition descriptor :: "jsstring \<Rightarrow> profile_desc" where
  "descriptor u = \<lparr> d_url = Some u, d_phone = None, d_email = None, d_extraLinks = None \<rparr>"

definition two_profiles_and_a_stray :: scrape_request where
  "two_profiles_and_a_stray =
     \<lparr> req_profilesData = Some [descriptor (str ''https://www.linkedin.com/in/ada ''),
                                descriptor (str ''https://example.com/x''),
                                descriptor (str ''https://www.linkedin.com/pub/bob'')],
       req_userId = Some (str ''u1'') \<rparr>"

definition u1_has_dashboard :: server_state where
  "u1_has_dashboard = no_data \<lparr> dashboards := [str ''u1'' \<mapsto> new_dashboard 0 (str ''u1'')] \<rparr>"

definition only_a_name :: linkedin_profile where
  "only_a_name = no_fields \<lparr> firstName := Some (str ''Ada''), lastName := Some (str ''Byron'') \<rparr>"

definition batch_of :: "nat \<Rightarrow> batch" where
  "batch_of n = \<lparr> res = \<lparr> total = n, processed = 0, successful = 0, failed = 0, results = [] \<rparr>,
                  saved = [] \<rparr>"

text \<open>The counter of successes is the number of results with status \<open>success\<close>.\<close>

definition counted :: "batch \<Rightarrow> bool" where
  "counted b \<longleftrightarrow> successful (res b) = length (filter is_success (results (res b)))"

section \<open>Properties of the identifier extractor\<close>

lemma rmatch_seq_lits:
  "rmatch ic (seq_lits p r) (s, cap) =
     (if length p \<le> length s \<and> map (canonicalize ic) (take (length p) s) = map (canonicalize ic) p
      then rmatch ic r (drop (length p) s, cap) else [])"
proof (induction p arbitrary: s)
  case Nil
  then show ?case by simp
next
  case (Cons c cs)
  show ?case
  proof (cases s)
    case Nil
    then show ?thesis by simp
  next
    case (Cons u t)
    then show ?thesis using Cons.IH [of t] by simp
  qed
qed

lemma rmatch_plus_class:
  "rmatch ic (Plus (Class neg items)) (s, cap) =
     map (\<lambda>t. (t, cap)) (run_ends (\<lambda>u. class_holds ic items u \<noteq> neg) s)"
proof (induction s)
  case Nil
  then show ?case by simp
next
  case (Cons u t)
  then show ?case by simp
qed

lemma concat_run_ends:
  assumes "\<And>t. t \<noteq> [] \<Longrightarrow> P (hd t) \<Longrightarrow> f t = []"
  shows "concat (map f (run_ends P s)) = (if takeWhile P s \<noteq> [] then f (dropWhile P s) else [])"
proof (induction s)
  case Nil
  then show ?case by simp
next
  case (Cons u t)
  show ?case
  proof (cases "P u")
    case False
    then show ?thesis by simp
  next
    case True
    show ?thesis
    proof (cases "takeWhile P t = []")
      case True
      then have "dropWhile P t = t"
        by (cases t) (auto split: if_splits)
      with True \<open>P u\<close> Cons.IH show ?thesis by simp
    next
      case False
      then have "t \<noteq> []" "P (hd t)" by (cases t; auto split: if_splits)+
      then have "f t = []" using assms by blast
      with False \<open>P u\<close> Cons.IH show ?thesis by simp
    qed
  qed
qed

lemma run_ends_length: "t \<in> set (run_ends P s) \<Longrightarrow> length t < length s"
  by (induction s) (auto split: if_splits)

lemma unat_lower_unit:
  "unat (lower_unit u) = (if 65 \<le> unat u \<and> unat u \<le> 90 then unat u + 32 else unat u)"
proof -
  have "unat u < 65536" using unsigned_less [of u, where ?'a = nat] by simp
  then show ?thesis
    by (auto simp: lower_unit_def word_le_nat_alt unat_word_ariths)
qed

lemma unat_upper_unit:
  "unat (upper_unit u) = (if 97 \<le> unat u \<and> unat u \<le> 122 then unat u - 32 else unat u)"
proof -
  have "unat u < 65536" using unsigned_less [of u, where ?'a = nat] by simp
  then show ?thesis
    by (auto simp: upper_unit_def word_le_nat_alt unat_sub)
qed

lemmas unit_to_nat = word_le_nat_alt word_unat_eq_iff unat_lower_unit unat_upper_unit

lemma idc_id_unit: "idc u = id_unit u"
  unfolding idc_def id_unit_def class_holds_def
  by (simp add: unit_to_nat) arith

lemma upper_eq_iff_lower_eq: "upper_unit a = upper_unit b \<longleftrightarrow> lower_unit a = lower_unit b"
  by (simp add: unit_to_nat) arith

lemma not_idc_slash: "\<not> idc 47" "\<not> idc 63"
  by (simp_all add: idc_id_unit id_unit_def)

lemma slash_or_question: "class_holds True [Single 47, Single 63] u \<longleftrightarrow> u = 47 \<or> u = 63"
  unfolding class_holds_def by (simp add: unit_to_nat) arith

lemma rmatch_terminator:
  "rmatch True (Alt (Class False [Single 47, Single 63]) End_of_input) (s, cap) =
     (if after_ok s then [(if s = [] then [] else tl s, cap)] else [])"
  by (cases s) (auto simp: after_ok_def slash_or_question)

lemma take_takeWhile: "take (length s - length (dropWhile P s)) s = takeWhile P s"
proof -
  have "length s - length (dropWhile P s) = length (takeWhile P s)"
    by (metis add_diff_cancel_right' length_append takeWhile_dropWhile_id)
  then show ?thesis
    by (metis append_eq_conv_conj takeWhile_dropWhile_id)
qed

lemma rmatch_helper_tail:
  "rmatch True (Seq (Group (Plus (Class False [Word_chars, Single 45, Single 37, Single 46, Range 48 57])))
            (Alt (Class False [Single 47, Single 63]) End_of_input)) (s, cap) =
     (if takeWhile idc s \<noteq> [] \<and> after_ok (dropWhile idc s)
      then [(if dropWhile idc s = [] then [] else tl (dropWhile idc s), Some (takeWhile idc s))]
      else [])"
proof -
  let ?alt = "Alt (Class False [Single 47, Single 63]) End_of_input"
  let ?f = "\<lambda>t. rmatch True ?alt (t, Some (take (length s - length t) s))"
  have stop: "?f t = []" if "t \<noteq> []" "idc (hd t)" for t
  proof -
    from that have "\<not> after_ok t"
      using not_idc_slash by (auto simp: after_ok_def)
    then show ?thesis by (simp only: rmatch_terminator if_False)
  qed
  have "rmatch True (Seq (Group (Plus (Class False [Word_chars, Single 45, Single 37, Single 46, Range 48 57]))) ?alt) (s, cap)
      = concat (map ?f (run_ends idc s))"
    by (simp only: rmatch.simps(3,6) rmatch_plus_class map_map comp_def fst_conv idc_def [abs_def])
  also have "\<dots> = (if takeWhile idc s \<noteq> [] then ?f (dropWhile idc s) else [])"
    using stop by (rule concat_run_ends)
  finally show ?thesis
    by (simp only: rmatch_terminator take_takeWhile) auto
qed

lemma length_link: "length (str ''linkedin.com/in/'') = 16"
  by (simp add: str_def)

lemma rmatch_helper:
  "rmatch True helper_regex (t, cap) =
     (if starts t \<and> takeWhile idc (drop 16 t) \<noteq> [] \<and> after_ok (dropWhile idc (drop 16 t))
      then [(if dropWhile idc (drop 16 t) = [] then [] else tl (dropWhile idc (drop 16 t)),
             Some (takeWhile idc (drop 16 t)))]
      else [])"
  unfolding helper_regex_def rmatch_seq_lits rmatch_helper_tail length_link starts_def canonicalize_def
  by simp

lemma map_upper_eq_iff: "map upper_unit a = map upper_unit b \<longleftrightarrow> map lower_unit a = map lower_unit b"
proof (induction a arbitrary: b)
  case Nil
  then show ?case by simp
next
  case (Cons x xs)
  then show ?case by (cases b) (simp_all add: upper_eq_iff_lower_eq)
qed

lemma identifier_at_iff:
  "identifier_at t run \<longleftrightarrow>
     starts t \<and> run = takeWhile idc (drop 16 t) \<and> run \<noteq> [] \<and> after_ok (dropWhile idc (drop 16 t))"
proof
  assume "identifier_at t run"
  then obtain lk post where d: "t = lk @ run @ post"
    and lk: "same_ignoring_case lk (str ''linkedin.com/in/'')"
    and run: "run \<noteq> []" "list_all id_unit run"
    and post: "post = [] \<or> hd post = 47 \<or> hd post = 63"
    unfolding identifier_at_def by blast
  from lk have "length (map lower_unit lk) = length (map lower_unit (str ''linkedin.com/in/''))"
    unfolding same_ignoring_case_def by simp
  then have len: "length lk = 16" by (simp add: length_link)
  with d have tk: "take 16 t = lk" and dr: "drop 16 t = run @ post" by simp_all
  from lk len d have st: "starts t"
    unfolding starts_def tk same_ignoring_case_def map_upper_eq_iff by simp
  from post have "takeWhile idc post = []"
    using not_idc_slash by (cases post) auto
  moreover from run have "\<forall>u\<in>set run. idc u"
    by (simp add: list_all_iff idc_id_unit)
  ultimately have tw: "takeWhile idc (run @ post) = run" and dw: "dropWhile idc (run @ post) = post"
    by (simp_all add: takeWhile_append2 dropWhile_append2 takeWhile_eq_Nil_iff) (metis dropWhile_eq_self_iff takeWhile_eq_Nil_iff)+
  from st run post show "starts t \<and> run = takeWhile idc (drop 16 t) \<and> run \<noteq> [] \<and> after_ok (dropWhile idc (drop 16 t))"
    unfolding dr tw dw after_ok_def by simp
next
  assume a: "starts t \<and> run = takeWhile idc (drop 16 t) \<and> run \<noteq> [] \<and> after_ok (dropWhile idc (drop 16 t))"
  let ?lk = "take 16 t" and ?post = "dropWhile idc (drop 16 t)"
  have "t = ?lk @ run @ ?post" using a by simp
  moreover have "same_ignoring_case ?lk (str ''linkedin.com/in/'')"
    using a unfolding starts_def same_ignoring_case_def map_upper_eq_iff by simp
  moreover have "list_all id_unit run"
    using a by (auto simp: list_all_iff idc_id_unit [symmetric] dest: set_takeWhileD)
  moreover have "?post = [] \<or> hd ?post = 47 \<or> hd ?post = 63"
    using a by (simp add: after_ok_def)
  ultimately show "identifier_at t run"
    unfolding identifier_at_def using a by blast
qed

lemma js_match_None:
  "(\<And>pre t. s = pre @ t \<Longrightarrow> rmatch ic r (t, None) = []) \<Longrightarrow> js_match ic r s = None"
proof (induction s)
  case Nil
  then show ?case by simp
next
  case (Cons u s)
  have "rmatch ic r (u # s, None) = []" using Cons.prems [of "[]"] by simp
  moreover have "js_match ic r s = None"
  proof (rule Cons.IH)
    fix pre t assume "s = pre @ t"
    then show "rmatch ic r (t, None) = []" using Cons.prems [of "u # pre" t] by simp
  qed
  ultimately show ?case by simp
qed

lemma js_match_first:
  assumes "rmatch ic r (t, None) = y # ys"
    and "\<And>pre' t'. pre @ t = pre' @ t' \<Longrightarrow> length pre' < length pre \<Longrightarrow> rmatch ic r (t', None) = []"
  shows "js_match ic r (pre @ t) = Some (snd y)"
  using assms
proof (induction pre)
  case Nil
  then show ?case by (cases t) simp_all
next
  case (Cons u pre)
  have "rmatch ic r (u # pre @ t, None) = []"
    using Cons.prems(2) [of "[]" "u # pre @ t"] by simp
  moreover have "js_match ic r (pre @ t) = Some (snd y)"
  proof (rule Cons.IH [OF Cons.prems(1)])
    fix pre' t' assume "pre @ t = pre' @ t'" "length pre' < length pre"
    then show "rmatch ic r (t', None) = []"
      using Cons.prems(2) [of "u # pre'" t'] by simp
  qed
  ultimately show ?case by simp
qed

lemma identifier_at_matches_here: "identifier_at t run \<Longrightarrow> matches_here t"
  by (auto simp: identifier_at_iff matches_here_def)

lemma no_earlier_identifier:
  assumes "list_all (\<lambda>k. \<not> matches_here (drop k s)) [0..<n]"
  shows "\<forall>pre' t' run'. s = pre' @ t' \<and> length pre' < n \<longrightarrow> \<not> identifier_at t' run'"
proof (intro allI impI)
  fix pre' t' run' assume a: "s = pre' @ t' \<and> length pre' < n"
  then have "t' = drop (length pre') s" by simp
  moreover from assms have "\<forall>k<n. \<not> matches_here (drop k s)"
    by (simp add: list_all_iff)
  with a have "\<not> matches_here (drop (length pre') s)" by blast
  ultimately show "\<not> identifier_at t' run'"
    using identifier_at_matches_here by blast
qed

lemma no_identifier_anywhere:
  assumes "list_all (\<lambda>k. \<not> matches_here (drop k s)) [0..<Suc (length s)]"
  shows "\<forall>pre t run. s = pre @ t \<longrightarrow> \<not> identifier_at t run"
  using no_earlier_identifier [OF assms] by (metis length_append less_Suc_eq_le le_add1)

text \<open>
  Claim C1. For a string that holds \<open>linkedin.com/in/\<close> (in any mix of cases) followed
  by a non-empty run of word characters, hyphens, percent signs, dots and digits, the run
  being followed by \<open>/\<close>, \<open>?\<close> or the end of the string, the helper returns the run in
  lower case; where several places of the string qualify, the leftmost one gives the run.
  For a string with no such place, for the empty string and for \<open>null\<close> it returns \<open>null\<close>.
  It never throws.
\<close>

theorem extractLinkedInId_spec:
  "(s = pre @ t \<and> identifier_at t run \<and>
      (\<forall>pre' t' run'. s = pre' @ t' \<and> length pre' < length pre \<longrightarrow> \<not> identifier_at t' run')
      \<longrightarrow> extractLinkedInId (Some s) = Inr (Some (toLowerCase run))) \<and>
   ((\<forall>pre t run. s = pre @ t \<longrightarrow> \<not> identifier_at t run)
      \<longrightarrow> extractLinkedInId (Some s) = Inr None) \<and>
   extractLinkedInId None = Inr None \<and>
   extractLinkedInId (Some []) = Inr None \<and>
   (\<forall>e. extractLinkedInId url \<noteq> Inl e)"
proof (intro conjI impI allI)
  assume a: "s = pre @ t \<and> identifier_at t run \<and>
      (\<forall>pre' t' run'. s = pre' @ t' \<and> length pre' < length pre \<longrightarrow> \<not> identifier_at t' run')"
  then have here: "starts t" "run = takeWhile idc (drop 16 t)" "run \<noteq> []"
      "after_ok (dropWhile idc (drop 16 t))"
    by (auto simp: identifier_at_iff)
  then obtain y where y: "rmatch True helper_regex (t, None) = [y]" "snd y = Some run"
    by (auto simp: rmatch_helper)
  have earlier: "rmatch True helper_regex (t', None) = []"
    if "pre @ t = pre' @ t'" "length pre' < length pre" for pre' t'
  proof -
    from a that have "\<not> identifier_at t' (takeWhile idc (drop 16 t'))" by blast
    then show ?thesis by (simp add: identifier_at_iff rmatch_helper)
  qed
  have "js_match True helper_regex (pre @ t) = Some (snd y)"
    using y(1) earlier by (rule js_match_first)
  moreover from here a have "s \<noteq> []" by (auto simp: starts_def)
  ultimately show "extractLinkedInId (Some s) = Inr (Some (toLowerCase run))"
    using a y(2) by (simp add: extractLinkedInId_def)
next
  assume a: "\<forall>pre t run. s = pre @ t \<longrightarrow> \<not> identifier_at t run"
  have "js_match True helper_regex s = None"
  proof (rule js_match_None)
    fix pre t assume "s = pre @ t"
    with a have "\<not> identifier_at t (takeWhile idc (drop 16 t))" by blast
    then show "rmatch True helper_regex (t, None) = []"
      by (simp add: identifier_at_iff rmatch_helper)
  qed
  then show "extractLinkedInId (Some s) = Inr None"
    by (simp add: extractLinkedInId_def)
next
  show "extractLinkedInId None = Inr None" by (simp add: extractLinkedInId_def)
next
  show "extractLinkedInId (Some []) = Inr None" by (simp add: extractLinkedInId_def)
next
  fix e
  have "snd y \<noteq> None" if "rmatch True helper_regex (t, None) = y # ys" for t y ys
    using that by (auto simp: rmatch_helper split: if_splits)
  then have "js_match True helper_regex s \<noteq> Some None" for s
    by (induction s) (auto split: list.splits)
  then show "extractLinkedInId url \<noteq> Inl e"
    by (auto simp: extractLinkedInId_def split: option.splits)
qed

theorem extractLinkedInId_spec_witness:
  "identifier_at (str ''LinkedIn.com/in/John-Doe/?trk=x'') (str ''John-Doe'') \<and>
   extractLinkedInId (Some (str ''https://www.LinkedIn.com/in/John-Doe/?trk=x'')) =
     Inr (Some (str ''john-doe'')) \<and>
   extractLinkedInId (Some (str ''linkedin.com/in/a#b'')) = Inr None"
proof -
  let ?pre = "str ''https://www.''" and ?t = "str ''LinkedIn.com/in/John-Doe/?trk=x''"
  let ?s = "str ''https://www.LinkedIn.com/in/John-Doe/?trk=x''" and ?run = "str ''John-Doe''"
  have here: "identifier_at ?t ?run"
    unfolding identifier_at_iff by code_simp
  have len: "length ?pre = 12" by (simp add: str_def)
  have "list_all (\<lambda>k. \<not> matches_here (drop k ?s)) [0..<12]"
    by code_simp
  then have first: "\<forall>pre' t' run'. ?s = pre' @ t' \<and> length pre' < length ?pre \<longrightarrow> \<not> identifier_at t' run'"
    unfolding len by (rule no_earlier_identifier)
  have split: "?s = ?pre @ ?t" by (simp add: str_def)
  have lower: "toLowerCase ?run = str ''john-doe''" by code_simp
  have "list_all (\<lambda>k. \<not> matches_here (drop k (str ''linkedin.com/in/a#b''))) [0..<Suc (length (str ''linkedin.com/in/a#b''))]"
    by code_simp
  then have none: "\<forall>pre t run. str ''linkedin.com/in/a#b'' = pre @ t \<longrightarrow> \<not> identifier_at t run"
    by (rule no_identifier_anywhere)
  from extractLinkedInId_spec [of ?s ?pre ?t ?run] here first split lower
  have "extractLinkedInId (Some ?s) = Inr (Some (str ''john-doe''))" by simp
  moreover from extractLinkedInId_spec [of "str ''linkedin.com/in/a#b''"] none
  have "extractLinkedInId (Some (str ''linkedin.com/in/a#b'')) = Inr None" by blast
  ultimately show ?thesis using here by blast
qed

section \<open>Properties of the normalizer\<close>

lemma js_includes_iff: "js_includes s k \<longleftrightarrow> (\<exists>pre post. s = pre @ k @ post)"
proof (induction s)
  case Nil
  then show ?case by auto
next
  case (Cons u t)
  show ?case
  proof
    assume "js_includes (u # t) k"
    then consider "take (length k) (u # t) = k" | "js_includes t k"
      by (simp only: js_includes.simps) blast
    then show "\<exists>pre post. u # t = pre @ k @ post"
    proof cases
      case 1
      then have "u # t = [] @ k @ drop (length k) (u # t)"
        by (metis append_Nil append_take_drop_id)
      then show ?thesis by blast
    next
      case 2
      then obtain pre post where "t = pre @ k @ post" using Cons.IH by blast
      then have "u # t = (u # pre) @ k @ post" by simp
      then show ?thesis by blast
    qed
  next
    assume "\<exists>pre post. u # t = pre @ k @ post"
    then obtain pre post where d: "u # t = pre @ k @ post" by blast
    show "js_includes (u # t) k"
    proof (cases pre)
      case Nil
      with d have "take (length k) (u # t) = k" by simp
      then show ?thesis by (simp only: js_includes.simps simp_thms)
    next
      case (Cons a pre')
      with d have "t = pre' @ k @ post" by simp
      then have "js_includes t k" using Cons.IH by blast
      then show ?thesis by (simp only: js_includes.simps simp_thms)
    qed
  qed
qed

lemma includes_lower_iff:
  assumes "toLowerCase w = w"
  shows "js_includes (toLowerCase text) w \<longleftrightarrow> contains_word text w"
proof -
  have w: "map lower_unit w = w" using assms unfolding toLowerCase_def .
  have "(\<exists>pre post. map lower_unit text = pre @ w @ post) \<longleftrightarrow>
        (\<exists>pre mid post. text = pre @ mid @ post \<and> map lower_unit mid = w)"
  proof
    assume "\<exists>pre post. map lower_unit text = pre @ w @ post"
    then obtain pre post where "map lower_unit text = pre @ (w @ post)" by blast
    then have "\<exists>us vs. text = us @ vs \<and> pre = map lower_unit us \<and> w @ post = map lower_unit vs"
      by (simp only: map_eq_append_conv)
    then obtain us vs where a1: "text = us @ vs" and a2: "w @ post = map lower_unit vs"
      by blast
    from a2 [symmetric] have "\<exists>mid ws. vs = mid @ ws \<and> w = map lower_unit mid \<and> post = map lower_unit ws"
      by (simp only: map_eq_append_conv)
    then obtain mid ws where b1: "vs = mid @ ws" and b2: "w = map lower_unit mid"
      by blast
    have "text = us @ mid @ ws" by (simp only: a1 b1)
    with b2 [symmetric] show "\<exists>pre mid post. text = pre @ mid @ post \<and> map lower_unit mid = w" by blast
  next
    assume "\<exists>pre mid post. text = pre @ mid @ post \<and> map lower_unit mid = w"
    then obtain pre mid post where c1: "text = pre @ mid @ post" and c2: "map lower_unit mid = w" by blast
    have "map lower_unit text = map lower_unit pre @ map lower_unit mid @ map lower_unit post"
      unfolding c1 by simp
    then have "map lower_unit text = map lower_unit pre @ w @ map lower_unit post"
      unfolding c2 .
    then show "\<exists>pre post. map lower_unit text = pre @ w @ post" by blast
  qed
  then show ?thesis
    unfolding js_includes_iff contains_word_def same_ignoring_case_def toLowerCase_def w .
qed

lemma job_title_effective: "job_title p = effective_job_title p"
  by (auto simp: job_title_def effective_job_title_def first_position_def or_str_def present_def
      split: option.splits list.splits)

lemma trim_empty_iff: "trim s = [] \<longleftrightarrow> blank s"
proof
  assume "trim s = []"
  then have all: "\<forall>x\<in>set (dropWhile is_ws s). is_ws x"
    by (simp add: trim_def dropWhile_eq_Nil_conv)
  have "dropWhile is_ws s = []"
  proof (rule ccontr)
    assume ne: "dropWhile is_ws s \<noteq> []"
    then have "\<not> is_ws (hd (dropWhile is_ws s))" by (rule hd_dropWhile)
    with all ne show False by simp
  qed
  then show "blank s" by (simp add: blank_def list_all_iff dropWhile_eq_Nil_conv)
next
  assume "blank s"
  then show "trim s = []"
    by (auto simp: blank_def list_all_iff trim_def dropWhile_eq_Nil_conv dest: set_dropWhileD)
qed

lemma foldl_set_add: "foldl set_add acc xs = acc @ fresh_from (set acc) xs"
  by (induction xs arbitrary: acc) (auto simp: set_add_def)

lemma fresh_from_index:
  "fresh_from seen xs =
     map (\<lambda>i. xs ! i) (filter (\<lambda>i. xs ! i \<notin> seen \<union> set (take i xs)) [0..<length xs])"
proof (induction xs arbitrary: seen)
  case Nil
  then show ?case by simp
next
  case (Cons x xs)
  let ?P = "\<lambda>i. (x # xs) ! i \<notin> seen \<union> set (take i (x # xs))"
  let ?Q = "\<lambda>i. xs ! i \<notin> insert x seen \<union> set (take i xs)"
  have upt: "[0..<length (x # xs)] = 0 # map Suc [0..<length xs]"
    by (simp add: upt_conv_Cons map_Suc_upt del: upt_Suc)
  have shift: "filter ?P (map Suc [0..<length xs]) = map Suc (filter ?Q [0..<length xs])"
    unfolding filter_map comp_def
    by (rule arg_cong [where f = "map Suc"], rule filter_cong) auto
  have "map ((!) (x # xs)) (map Suc (filter ?Q [0..<length xs])) = map ((!) xs) (filter ?Q [0..<length xs])"
    by (simp add: comp_def)
  then have tail: "map ((!) (x # xs)) (filter ?P (map Suc [0..<length xs])) = fresh_from (insert x seen) xs"
    unfolding shift Cons.IH [of "insert x seen"] .
  have head: "?P 0 \<longleftrightarrow> x \<notin> seen" by simp
  show ?case
  proof (cases "x \<in> seen")
    case True
    then have "insert x seen = seen" by auto
    with True head tail show ?thesis
      by (simp only: upt filter.simps list.map fresh_from.simps if_True if_False simp_thms)
  next
    case False
    with head tail show ?thesis
      by (simp only: upt filter.simps list.map fresh_from.simps if_True if_False nth_Cons_0 simp_thms)
  qed
qed

lemma set_values_first: "set_values xs = first_occurrences xs"
  by (simp add: set_values_def foldl_set_add fresh_from_index first_occurrences_def)

lemma named_entries_of: "named_entries arr = entries_of (Some arr)"
  by (simp add: named_entries_def entries_of_def trim_empty_iff)

lemma keyword_lower:
  "toLowerCase (str ''ceo'') = str ''ceo''"
  "toLowerCase (str ''cto'') = str ''cto''"
  "toLowerCase (str ''cfo'') = str ''cfo''"
  "toLowerCase (str ''chief'') = str ''chief''"
  "toLowerCase (str ''vp'') = str ''vp''"
  "toLowerCase (str ''vice president'') = str ''vice president''"
  "toLowerCase (str ''director'') = str ''director''"
  "toLowerCase (str ''manager'') = str ''manager''"
  "toLowerCase (str ''senior'') = str ''senior''"
  "toLowerCase (str ''lead'') = str ''lead''"
  "toLowerCase (str ''principal'') = str ''principal''"
  "toLowerCase (str ''junior'') = str ''junior''"
  by (simp_all add: toLowerCase_def str_def lower_unit_def)

lemmas includes_keyword = keyword_lower [THEN includes_lower_iff]

lemma seniority_words:
  "seniority t y =
     (if contains_word t (str ''ceo'') \<or> contains_word t (str ''cto'') \<or>
         contains_word t (str ''cfo'') \<or> contains_word t (str ''chief'')
      then str ''C-Level''
      else if contains_word t (str ''vp'') \<or> contains_word t (str ''vice president'')
      then str ''VP''
      else if contains_word t (str ''director'') \<or> contains_word t (str ''manager'')
      then str ''Director''
      else if contains_word t (str ''senior'') \<or> contains_word t (str ''lead'') \<or>
              contains_word t (str ''principal'')
      then str ''Senior''
      else if contains_word t (str ''junior'') \<or> y < 2
      then str ''Entry-level''
      else str ''Mid-level'')"
  unfolding seniority_def Let_def includes_keyword ..

lemma transform_fields:
  "transformLinkedInDataWithPhone currentYear (Some p) userId profileInput = Inr c \<Longrightarrow>
     jobTitle c = job_title p \<and> experience c = experienceYears currentYear p \<and>
     seniorityLevel c = seniority (job_title p) (experienceYears currentYear p) \<and>
     skills c = collect_skills p"
  by (auto simp: transformLinkedInDataWithPhone_def)

lemma transform_returns:
  "\<exists>c. transformLinkedInDataWithPhone currentYear (Some p) userId profileInput = Inr c"
  by (simp add: transformLinkedInDataWithPhone_def)

text \<open>
  Claim C2. The normalizer returns a record whose job title is the effective job title
  (the payload's job title, else its occupation, else the title of the first position) and
  whose seniority level follows from it by the first rule that applies, cases ignored:
  \<open>ceo\<close>, \<open>cto\<close>, \<open>cfo\<close> or \<open>chief\<close> gives C-Level; \<open>vp\<close> or \<open>vice president\<close> gives VP;
  \<open>director\<close> or \<open>manager\<close> gives Director; \<open>senior\<close>, \<open>lead\<close> or \<open>principal\<close> gives
  Senior; \<open>junior\<close> in the title or fewer than 2 years of experience gives Entry-level;
  anything else is Mid-level.
\<close>

theorem seniority_precedence:
  "\<exists>c. transformLinkedInDataWithPhone currentYear (Some p) userId profileInput = Inr c \<and>
     jobTitle c = effective_job_title p \<and>
     seniorityLevel c =
       (if contains_word (effective_job_title p) (str ''ceo'') \<or>
           contains_word (effective_job_title p) (str ''cto'') \<or>
           contains_word (effective_job_title p) (str ''cfo'') \<or>
           contains_word (effective_job_title p) (str ''chief'')
        then str ''C-Level''
        else if contains_word (effective_job_title p) (str ''vp'') \<or>
                contains_word (effective_job_title p) (str ''vice president'')
        then str ''VP''
        else if contains_word (effective_job_title p) (str ''director'') \<or>
                contains_word (effective_job_title p) (str ''manager'')
        then str ''Director''
        else if contains_word (effective_job_title p) (str ''senior'') \<or>
                contains_word (effective_job_title p) (str ''lead'') \<or>
                contains_word (effective_job_title p) (str ''principal'')
        then str ''Senior''
        else if contains_word (effective_job_title p) (str ''junior'') \<or> experience c < 2
        then str ''Entry-level''
        else str ''Mid-level'')"
proof -
  obtain c where c: "transformLinkedInDataWithPhone currentYear (Some p) userId profileInput = Inr c"
    using transform_returns by blast
  from transform_fields [OF c] show ?thesis
    unfolding c by (simp only: seniority_words job_title_effective sum.inject simp_thms ex_simps)
qed


theorem seniority_precedence_witness:
  "\<exists>c. transformLinkedInDataWithPhone 2024 (Some engineer_since_2018) (str ''u1'')
          (no_contact_info (str ''https://www.linkedin.com/in/ada'')) = Inr c \<and>
     jobTitle c = str ''Engineer'' \<and> experience c = 6 \<and> seniorityLevel c = str ''Mid-level''"
proof -
  have t: "effective_job_title engineer_since_2018 = str ''Engineer''"
    by (simp add: effective_job_title_def engineer_since_2018_def no_fields_def present_def str_def)
  have e: "experienceYears 2024 engineer_since_2018 = 6"
    by (simp add: experienceYears_def engineer_since_2018_def no_fields_def earlier_start_def
        start_year_def)
  have no: "\<not> contains_word (str ''Engineer'') (str ''ceo'')"
    "\<not> contains_word (str ''Engineer'') (str ''cto'')"
    "\<not> contains_word (str ''Engineer'') (str ''cfo'')"
    "\<not> contains_word (str ''Engineer'') (str ''chief'')"
    "\<not> contains_word (str ''Engineer'') (str ''vp'')"
    "\<not> contains_word (str ''Engineer'') (str ''vice president'')"
    "\<not> contains_word (str ''Engineer'') (str ''director'')"
    "\<not> contains_word (str ''Engineer'') (str ''manager'')"
    "\<not> contains_word (str ''Engineer'') (str ''senior'')"
    "\<not> contains_word (str ''Engineer'') (str ''lead'')"
    "\<not> contains_word (str ''Engineer'') (str ''principal'')"
    "\<not> contains_word (str ''Engineer'') (str ''junior'')"
    unfolding includes_keyword [symmetric] by code_simp+
  from seniority_precedence [of 2024 engineer_since_2018 "str ''u1''"
      "no_contact_info (str ''https://www.linkedin.com/in/ada'')"]
  obtain c where c: "transformLinkedInDataWithPhone 2024 (Some engineer_since_2018) (str ''u1'')
          (no_contact_info (str ''https://www.linkedin.com/in/ada'')) = Inr c"
    and j: "jobTitle c = str ''Engineer''"
    and s: "seniorityLevel c = (if experience c < 2 then str ''Entry-level'' else str ''Mid-level'')"
    unfolding t by (simp only: no simp_thms if_False) blast
  from transform_fields [OF c] e have "experience c = 6" by simp
  with c j s show ?thesis by simp
qed

text \<open>
  Claim C3, as stated, fails: the title \<open>Senior Manager\<close> holds \<open>senior\<close>, and the record
  is a Director, since the rule for \<open>manager\<close> comes first.
\<close>

theorem senior_title_counterexample:
  "contains_word
     (effective_job_title (engineer_since_2018 \<lparr> li_jobTitle := Some (str ''Senior Manager'') \<rparr>))
     (str ''senior'') \<and>
   transformLinkedInDataWithPhone 2024
     (Some (engineer_since_2018 \<lparr> li_jobTitle := Some (str ''Senior Manager'') \<rparr>)) (str ''u1'')
     (no_contact_info (str ''https://www.linkedin.com/in/ada'')) =
   Inr \<lparr> name = str ''Ada'', jobTitle = str ''Senior Manager'', company = str ''Acme'', experience = 6,
         seniorityLevel = str ''Director'', skills = [], email = [], phone = [],
         uploadedBy = str ''u1'', linkedinUrl = str ''https://www.linkedin.com/in/ada'',
         extraLinks = [] \<rparr> \<and>
   str ''Director'' \<noteq> str ''Senior''"
proof -
  have "effective_job_title (engineer_since_2018 \<lparr> li_jobTitle := Some (str ''Senior Manager'') \<rparr>) =
      str ''Senior Manager''"
    by (simp add: effective_job_title_def engineer_since_2018_def no_fields_def present_def str_def)
  moreover have "contains_word (str ''Senior Manager'') (str ''senior'')"
    unfolding includes_keyword [symmetric] by code_simp
  moreover have "transformLinkedInDataWithPhone 2024
     (Some (engineer_since_2018 \<lparr> li_jobTitle := Some (str ''Senior Manager'') \<rparr>)) (str ''u1'')
     (no_contact_info (str ''https://www.linkedin.com/in/ada'')) =
   Inr \<lparr> name = str ''Ada'', jobTitle = str ''Senior Manager'', company = str ''Acme'', experience = 6,
         seniorityLevel = str ''Director'', skills = [], email = [], phone = [],
         uploadedBy = str ''u1'', linkedinUrl = str ''https://www.linkedin.com/in/ada'',
         extraLinks = [] \<rparr>"
    by code_simp
  moreover have "str ''Director'' \<noteq> str ''Senior''" by (simp add: str_def)
  ultimately show ?thesis by simp
qed

text \<open>
  Claim C3, amended. When the effective job title holds \<open>senior\<close> (cases ignored) and
  none of \<open>ceo\<close>, \<open>cto\<close>, \<open>cfo\<close>, \<open>chief\<close>, \<open>vp\<close>, \<open>vice president\<close>, \<open>director\<close> and
  \<open>manager\<close>, the seniority level is Senior, whatever the current year and the positions,
  hence whatever the years of experience.
\<close>

theorem senior_title_amended:
  assumes "contains_word (effective_job_title p) (str ''senior'')"
    and "\<not> contains_word (effective_job_title p) (str ''ceo'')"
    and "\<not> contains_word (effective_job_title p) (str ''cto'')"
    and "\<not> contains_word (effective_job_title p) (str ''cfo'')"
    and "\<not> contains_word (effective_job_title p) (str ''chief'')"
    and "\<not> contains_word (effective_job_title p) (str ''vp'')"
    and "\<not> contains_word (effective_job_title p) (str ''vice president'')"
    and "\<not> contains_word (effective_job_title p) (str ''director'')"
    and "\<not> contains_word (effective_job_title p) (str ''manager'')"
  shows "\<exists>c. transformLinkedInDataWithPhone currentYear (Some p) userId profileInput = Inr c \<and>
           seniorityLevel c = str ''Senior''"
proof -
  obtain c where c: "transformLinkedInDataWithPhone currentYear (Some p) userId profileInput = Inr c"
    using transform_returns by blast
  from transform_fields [OF c] assms have "seniorityLevel c = str ''Senior''"
    by (simp only: seniority_words job_title_effective simp_thms if_True if_False)
  with c show ?thesis by blast
qed

theorem senior_title_amended_witness:
  "contains_word (effective_job_title (engineer_since_2018 \<lparr> li_jobTitle := Some (str ''Senior Engineer'') \<rparr>))
     (str ''senior'') \<and>
   (\<exists>c. transformLinkedInDataWithPhone 2019
          (Some (engineer_since_2018 \<lparr> li_jobTitle := Some (str ''Senior Engineer'') \<rparr>))
          (str ''u1'') (no_contact_info (str ''https://www.linkedin.com/in/ada'')) = Inr c \<and>
        experience c = 1 \<and> seniorityLevel c = str ''Senior'')"
proof -
  let ?p = "engineer_since_2018 \<lparr> li_jobTitle := Some (str ''Senior Engineer'') \<rparr>"
  have t: "effective_job_title ?p = str ''Senior Engineer''"
    by (simp add: effective_job_title_def engineer_since_2018_def no_fields_def present_def str_def)
  have yes: "contains_word (str ''Senior Engineer'') (str ''senior'')"
    unfolding includes_keyword [symmetric] by code_simp
  have no: "\<not> contains_word (str ''Senior Engineer'') (str ''ceo'')"
    "\<not> contains_word (str ''Senior Engineer'') (str ''cto'')"
    "\<not> contains_word (str ''Senior Engineer'') (str ''cfo'')"
    "\<not> contains_word (str ''Senior Engineer'') (str ''chief'')"
    "\<not> contains_word (str ''Senior Engineer'') (str ''vp'')"
    "\<not> contains_word (str ''Senior Engineer'') (str ''vice president'')"
    "\<not> contains_word (str ''Senior Engineer'') (str ''director'')"
    "\<not> contains_word (str ''Senior Engineer'') (str ''manager'')"
    unfolding includes_keyword [symmetric] by code_simp+
  have e: "experienceYears 2019 ?p = 1"
    by (simp add: experienceYears_def engineer_since_2018_def no_fields_def earlier_start_def
        start_year_def)
  from senior_title_amended [of ?p 2019 "str ''u1''"
      "no_contact_info (str ''https://www.linkedin.com/in/ada'')", unfolded t, OF yes no]
  obtain c where c: "transformLinkedInDataWithPhone 2019 (Some ?p) (str ''u1'')
        (no_contact_info (str ''https://www.linkedin.com/in/ada'')) = Inr c"
    and s: "seniorityLevel c = str ''Senior''" by blast
  from transform_fields [OF c] e have "experience c = 1" by simp
  with c s yes t show ?thesis by auto
qed

lemma fresh_from_distinct: "distinct (fresh_from seen xs) \<and> set (fresh_from seen xs) \<inter> seen = {}"
proof (induction xs arbitrary: seen)
  case Nil
  then show ?case by simp
next
  case (Cons x xs)
  from Cons.IH [of seen] Cons.IH [of "insert x seen"] show ?case by auto
qed

lemma distinct_first_occurrences: "distinct (first_occurrences xs)"
  using fresh_from_distinct [of "{}" xs] fresh_from_index [of "{}" xs]
  by (simp add: first_occurrences_def)

lemma collect_skills_words:
  "collect_skills p =
     take 25 (first_occurrences (entries_of (li_skills p) @ entries_of (courses p) @
                                 take 10 (entries_of (certifications p))))"
  by (simp add: collect_skills_def set_values_first named_entries_of entries_of_def
      split: option.splits)

text \<open>
  Claim C4. The skills of the normalized record are the names of the payload's skills,
  then of its courses, then of its certifications, an entry being its own name when it
  is a string and else its \<open>name\<close> or \<open>title\<close>; blank names are discarded, and of the
  certifications the first 10 names that are left are taken. Of this list the first
  occurrences are kept in their order, and of those at most the first 25.
\<close>

theorem skills_assembly:
  "\<exists>c. transformLinkedInDataWithPhone currentYear (Some p) userId profileInput = Inr c \<and>
     skills c =
       take 25 (first_occurrences (entries_of (li_skills p) @ entries_of (courses p) @
                                   take 10 (entries_of (certifications p)))) \<and>
     length (skills c) \<le> 25 \<and> distinct (skills c)"
proof -
  obtain c where c: "transformLinkedInDataWithPhone currentYear (Some p) userId profileInput = Inr c"
    using transform_returns by blast
  from transform_fields [OF c] have "skills c = take 25 (first_occurrences
      (entries_of (li_skills p) @ entries_of (courses p) @ take 10 (entries_of (certifications p))))"
    by (simp only: collect_skills_words)
  moreover from this have "length (skills c) \<le> 25" "distinct (skills c)"
    by (simp_all add: distinct_first_occurrences)
  ultimately show ?thesis using c by blast
qed


theorem skills_assembly_witness:
  "\<exists>c. transformLinkedInDataWithPhone 2024 (Some many_skills) (str ''u1'')
          (no_contact_info (str ''https://www.linkedin.com/in/ada'')) = Inr c \<and>
     skills c = map str [''s1'', ''s2'', ''s3'', ''s4'', ''s5'', ''s6'', ''s7'', ''s8'', ''s9'',
       ''s10'', ''s11'', ''s12'', ''c1'', ''c2'', ''c3'', ''c4'', ''c5'', ''c6'', ''c7'', ''c8'',
       ''k1'', ''k2'', ''k3'', ''k4'', ''k5'']"
proof -
  have "take 25 (first_occurrences (entries_of (li_skills many_skills) @
          entries_of (courses many_skills) @ take 10 (entries_of (certifications many_skills)))) =
        map str [''s1'', ''s2'', ''s3'', ''s4'', ''s5'', ''s6'', ''s7'', ''s8'', ''s9'',
       ''s10'', ''s11'', ''s12'', ''c1'', ''c2'', ''c3'', ''c4'', ''c5'', ''c6'', ''c7'', ''c8'',
       ''k1'', ''k2'', ''k3'', ''k4'', ''k5'']"
    by code_simp
  with skills_assembly [of 2024 many_skills "str ''u1''"
      "no_contact_info (str ''https://www.linkedin.com/in/ada'')"]
  show ?thesis by auto
qed

section \<open>Properties of the dashboard routes, and the two extractors\<close>

lemma push_last_20:
  "push_each_slice xs [a] (- 20) = drop (length xs + 1 - 20) (xs @ [a])"
  by (simp add: push_each_slice_def)

lemma last_20_step:
  "drop (length (drop (length zs - 20) zs) + 1 - 20) (drop (length zs - 20) zs @ [a]) =
   drop (length (zs @ [a]) - 20) (zs @ [a])"
proof (cases "length zs < 20")
  case True
  then show ?thesis by simp
next
  case False
  then have "Suc (length zs - 20) = length zs - 19" by arith
  with False show ?thesis by simp
qed

lemma add_activity_log:
  "a \<noteq> [] \<Longrightarrow>
     activity_log uid (snd (add_activity fresh now uid (Some a) st)) =
       drop (length (activity_log uid st) + 1 - 20) (activity_log uid st @ [a])"
  by (simp add: add_activity_def activity_log_def or_str_def push_last_20 Let_def
      split: option.splits)

lemma add_activities_snoc:
  "add_activities fresh now uid (msgs @ [a]) st =
     snd (add_activity fresh now uid (Some a) (add_activities fresh now uid msgs st))"
  by (simp add: add_activities_def)

lemma add_activities_log:
  "\<forall>m\<in>set msgs. m \<noteq> [] \<Longrightarrow> msgs \<noteq> [] \<Longrightarrow>
     activity_log uid (add_activities fresh now uid msgs st) =
       drop (length (activity_log uid st @ msgs) - 20) (activity_log uid st @ msgs)"
proof (induction msgs rule: rev_induct)
  case Nil
  then show ?case by simp
next
  case (snoc a msgs)
  then have a: "a \<noteq> []" by simp
  show ?case
  proof (cases "msgs = []")
    case True
    with a show ?thesis
      by (simp add: add_activities_def add_activity_log)
  next
    case False
    with snoc have IH: "activity_log uid (add_activities fresh now uid msgs st) =
        drop (length (activity_log uid st @ msgs) - 20) (activity_log uid st @ msgs)"
      by simp
    show ?thesis
      unfolding add_activities_snoc add_activity_log [OF a] IH
      using last_20_step [of "activity_log uid st @ msgs" a] by simp
  qed
qed

text \<open>
  Claim C7. A request to add a message (a non-empty string) appends that one message to
  the stored log of the user and keeps the last 20 entries of the result. After any
  non-empty sequence of such requests the stored log is the last 20 entries of the old log
  followed by the messages, in their order, and has at most 20 entries.
\<close>

theorem activity_log_keeps_last_20:
  "(a \<noteq> [] \<longrightarrow>
      activity_log uid (snd (add_activity fresh now uid (Some a) st)) =
        drop (length (activity_log uid st) + 1 - 20) (activity_log uid st @ [a])) \<and>
   ((\<forall>m\<in>set msgs. m \<noteq> []) \<and> msgs \<noteq> [] \<longrightarrow>
      activity_log uid (add_activities fresh now uid msgs st) =
        drop (length (activity_log uid st @ msgs) - 20) (activity_log uid st @ msgs) \<and>
      length (activity_log uid (add_activities fresh now uid msgs st)) \<le> 20)"
proof (intro conjI impI)
  assume "a \<noteq> []"
  then show "activity_log uid (snd (add_activity fresh now uid (Some a) st)) =
        drop (length (activity_log uid st) + 1 - 20) (activity_log uid st @ [a])"
    by (rule add_activity_log)
next
  assume h: "(\<forall>m\<in>set msgs. m \<noteq> []) \<and> msgs \<noteq> []"
  then show eq: "activity_log uid (add_activities fresh now uid msgs st) =
        drop (length (activity_log uid st @ msgs) - 20) (activity_log uid st @ msgs)"
    using add_activities_log by blast
  show "length (activity_log uid (add_activities fresh now uid msgs st)) \<le> 20"
    unfolding eq by simp
qed


theorem activity_log_keeps_last_20_witness:
  "activity_log (str ''u1'')
     (add_activities (new_dashboard 0) 7 (str ''u1'')
        (map str [''m01'', ''m02'', ''m03'', ''m04'', ''m05'', ''m06'', ''m07'', ''m08'', ''m09'', ''m10'',
           ''m11'', ''m12'', ''m13'', ''m14'', ''m15'', ''m16'', ''m17'', ''m18'', ''m19'', ''m20'',
           ''m21'', ''m22'', ''m23'', ''m24'', ''m25'']) no_data) =
   map str [''m06'', ''m07'', ''m08'', ''m09'', ''m10'',
           ''m11'', ''m12'', ''m13'', ''m14'', ''m15'', ''m16'', ''m17'', ''m18'', ''m19'', ''m20'',
           ''m21'', ''m22'', ''m23'', ''m24'', ''m25'']"
proof -
  let ?msgs = "map str [''m01'', ''m02'', ''m03'', ''m04'', ''m05'', ''m06'', ''m07'', ''m08'', ''m09'', ''m10'',
           ''m11'', ''m12'', ''m13'', ''m14'', ''m15'', ''m16'', ''m17'', ''m18'', ''m19'', ''m20'',
           ''m21'', ''m22'', ''m23'', ''m24'', ''m25'']"
  have ne: "(\<forall>m\<in>set ?msgs. m \<noteq> []) \<and> ?msgs \<noteq> []" by (simp add: str_def)
  have log: "activity_log (str ''u1'') no_data = []" by (simp add: activity_log_def no_data_def)
  from activity_log_keeps_last_20 [of _ "str ''u1''" "new_dashboard 0" 7 no_data ?msgs] ne
  have "activity_log (str ''u1'') (add_activities (new_dashboard 0) 7 (str ''u1'') ?msgs no_data) =
      drop (length (activity_log (str ''u1'') no_data @ ?msgs) - 20)
        (activity_log (str ''u1'') no_data @ ?msgs)"
    by blast
  then show ?thesis unfolding log by simp
qed


text \<open>
  What a read does establish: \<open>myUploads\<close> and \<open>unlockedProfiles\<close> of the dashboard returned
  are the recomputed values, the store holds that dashboard, and nothing is written when
  the stored two counters were right.
\<close>

lemma get_dashboard_counters:
  "myUploads (fst (get_dashboard now uid st)) = int (countDocuments_uploadedBy uid (profiles st)) \<and>
   unlockedProfiles (fst (get_dashboard now uid st)) =
     (case unlockedContactIds (fst (get_dashboard now uid st)) of None \<Rightarrow> 0
      | Some ids \<Rightarrow> int (length ids)) \<and>
   dashboards (snd (get_dashboard now uid st)) uid = Some (fst (get_dashboard now uid st)) \<and>
   (\<forall>d. dashboards st uid = Some d \<and> myUploads d = int (countDocuments_uploadedBy uid (profiles st)) \<and>
        unlockedProfiles d = (case unlockedContactIds d of None \<Rightarrow> 0 | Some ids \<Rightarrow> int (length ids))
        \<longrightarrow> snd (get_dashboard now uid st) = st)"
  by (auto simp: get_dashboard_def Let_def new_dashboard_def split: option.splits)

text \<open>
  Claim C8 asks that after a read the stored \<open>totalContacts\<close> equals the number of profiles
  the user uploaded. The read compares \<open>myUploads\<close> and \<open>unlockedProfiles\<close> only: a user
  without uploads whose dashboard was created by a read and then updated with
  \<open>totalContacts = 5\<close> still has \<open>totalContacts = 5\<close> after the next read, in the response and
  in the store.
\<close>

theorem get_dashboard_leaves_totalContacts:
  "totalContacts (fst (get_dashboard 3 (str ''u1'')
      (snd (update_dashboard (new_dashboard 0) 2 (str ''u1'') (only_totalContacts 5)
         (snd (get_dashboard 1 (str ''u1'') no_data)))))) = 5 \<and>
   map_option totalContacts (dashboards (snd (get_dashboard 3 (str ''u1'')
      (snd (update_dashboard (new_dashboard 0) 2 (str ''u1'') (only_totalContacts 5)
         (snd (get_dashboard 1 (str ''u1'') no_data)))))) (str ''u1'')) = Some 5 \<and>
   countDocuments_uploadedBy (str ''u1'') (profiles (snd (get_dashboard 3 (str ''u1'')
      (snd (update_dashboard (new_dashboard 0) 2 (str ''u1'') (only_totalContacts 5)
         (snd (get_dashboard 1 (str ''u1'') no_data))))))) = 0"
  by (simp add: get_dashboard_def update_dashboard_def only_totalContacts_def new_dashboard_def
      no_data_def countDocuments_uploadedBy_def or_keep_def or_list_def Let_def)

theorem get_dashboard_leaves_totalContacts_witness:
  "totalContacts (fst (get_dashboard 3 (str ''u1'')
      (snd (update_dashboard (new_dashboard 0) 2 (str ''u1'') (only_totalContacts 5)
         (snd (get_dashboard 1 (str ''u1'') no_data)))))) \<noteq>
   int (countDocuments_uploadedBy (str ''u1'') (profiles (snd (get_dashboard 3 (str ''u1'')
      (snd (update_dashboard (new_dashboard 0) 2 (str ''u1'') (only_totalContacts 5)
         (snd (get_dashboard 1 (str ''u1'') no_data))))))))"
  using get_dashboard_leaves_totalContacts by simp

text \<open>
  Claim C10 asks that the helper and the Profile model's copy return the same identifier.
  For a URL with a fragment the helper finds none and the model's copy stores one; for a
  URL with capitals in the host name the helper finds one and the model's copy none.
\<close>

theorem extractLinkedInId_copies_differ:
  "extractLinkedInId (Some (str ''https://www.linkedin.com/in/johndoe#experience'')) = Inr None \<and>
   model_extractLinkedInId (Some (str ''https://www.linkedin.com/in/johndoe#experience'')) =
     Inr (Some (str ''johndoe#experience'')) \<and>
   extractLinkedInId (Some (str ''https://www.LinkedIn.com/in/JohnDoe'')) = Inr (Some (str ''johndoe'')) \<and>
   model_extractLinkedInId (Some (str ''https://www.LinkedIn.com/in/JohnDoe'')) = Inr None"
  by code_simp

theorem extractLinkedInId_copies_differ_witness:
  "extractLinkedInId (Some (str ''https://www.linkedin.com/in/johndoe#experience'')) \<noteq>
   model_extractLinkedInId (Some (str ''https://www.linkedin.com/in/johndoe#experience'')) \<and>
   extractLinkedInId (Some (str ''https://www.LinkedIn.com/in/JohnDoe'')) \<noteq>
   model_extractLinkedInId (Some (str ''https://www.LinkedIn.com/in/JohnDoe''))"
  using extractLinkedInId_copies_differ by simp


section \<open>Properties of the scrape endpoint\<close>

text \<open>
  Claim C5. For an item with a payload, the normalized record is posted to the
  \<open>/profiles\<close> endpoint exactly when it has a non-empty name and at least one of:
  experience above 0, a non-empty company, a non-empty job title. Otherwise no call is
  made for the item, and the item is recorded as failed with the message that the
  profile data is insufficient.
\<close>

theorem persisted_iff_minimum_data:
  "\<exists>c. transformLinkedInDataWithPhone (year_now e) (Some p) uid profileInput = Inr c \<and>
     (if name c \<noteq> [] \<and> (0 < experience c \<or> company c \<noteq> [] \<or> jobTitle c \<noteq> [])
      then saved (process_profile e uid profileInput (Some p) b) = saved b @ [c]
      else saved (process_profile e uid profileInput (Some p) b) = saved b \<and>
           res (process_profile e uid profileInput (Some p) b) =
             (res b) \<lparr> processed := processed (res b) + 1, failed := failed (res b) + 1,
                        results := results (res b) @ [Item_failed (in_url profileInput) insufficient] \<rparr>)"
proof -
  obtain c where c: "transformLinkedInDataWithPhone (year_now e) (Some p) uid profileInput = Inr c"
    using transform_returns by blast
  show ?thesis
    unfolding c
    by (auto simp: process_profile_def c hasMinimumData_def item_failed_def item_saved_def Let_def
        split: option.splits)
qed

theorem persisted_iff_minimum_data_witness:
  "saved (process_profile stuck_service (str ''u1'')
            (no_contact_info (str ''https://www.linkedin.com/in/ada'')) (Some only_a_name)
            (batch_of 1)) = [] \<and>
   results (res (process_profile stuck_service (str ''u1'')
            (no_contact_info (str ''https://www.linkedin.com/in/ada'')) (Some only_a_name)
            (batch_of 1))) =
     [Item_failed (str ''https://www.linkedin.com/in/ada'') insufficient] \<and>
   map company (saved (process_profile stuck_service (str ''u1'')
            (no_contact_info (str ''https://www.linkedin.com/in/ada''))
            (Some (only_a_name \<lparr> companyName := Some (str ''Acme'') \<rparr>)) (batch_of 1))) =
     [str ''Acme'']"
proof -
  let ?inp = "no_contact_info (str ''https://www.linkedin.com/in/ada'')"
  let ?p2 = "only_a_name \<lparr> companyName := Some (str ''Acme'') \<rparr>"
  from persisted_iff_minimum_data [of stuck_service only_a_name "str ''u1''" ?inp "batch_of 1"]
  obtain c1 where c1: "transformLinkedInDataWithPhone (year_now stuck_service) (Some only_a_name)
        (str ''u1'') ?inp = Inr c1"
    and r1: "if name c1 \<noteq> [] \<and> (0 < experience c1 \<or> company c1 \<noteq> [] \<or> jobTitle c1 \<noteq> [])
      then saved (process_profile stuck_service (str ''u1'') ?inp (Some only_a_name) (batch_of 1)) =
             saved (batch_of 1) @ [c1]
      else saved (process_profile stuck_service (str ''u1'') ?inp (Some only_a_name) (batch_of 1)) =
             saved (batch_of 1) \<and>
           res (process_profile stuck_service (str ''u1'') ?inp (Some only_a_name) (batch_of 1)) =
             (res (batch_of 1)) \<lparr> processed := processed (res (batch_of 1)) + 1,
                failed := failed (res (batch_of 1)) + 1,
                results := results (res (batch_of 1)) @ [Item_failed (in_url ?inp) insufficient] \<rparr>"
    by blast
  have f1: "experience c1 = 0 \<and> company c1 = [] \<and> jobTitle c1 = []"
    using c1 by (auto simp: transformLinkedInDataWithPhone_def only_a_name_def no_fields_def
        experienceYears_def job_title_def first_position_def or_str_def)
  from persisted_iff_minimum_data [of stuck_service ?p2 "str ''u1''" ?inp "batch_of 1"]
  obtain c2 where c2: "transformLinkedInDataWithPhone (year_now stuck_service) (Some ?p2)
        (str ''u1'') ?inp = Inr c2"
    and r2: "if name c2 \<noteq> [] \<and> (0 < experience c2 \<or> company c2 \<noteq> [] \<or> jobTitle c2 \<noteq> [])
      then saved (process_profile stuck_service (str ''u1'') ?inp (Some ?p2) (batch_of 1)) =
             saved (batch_of 1) @ [c2]
      else saved (process_profile stuck_service (str ''u1'') ?inp (Some ?p2) (batch_of 1)) =
             saved (batch_of 1) \<and>
           res (process_profile stuck_service (str ''u1'') ?inp (Some ?p2) (batch_of 1)) =
             (res (batch_of 1)) \<lparr> processed := processed (res (batch_of 1)) + 1,
                failed := failed (res (batch_of 1)) + 1,
                results := results (res (batch_of 1)) @ [Item_failed (in_url ?inp) insufficient] \<rparr>"
    by blast
  have n2: "name c2 = str ''Ada Byron''"
    using c2 unfolding transformLinkedInDataWithPhone_def only_a_name_def no_fields_def
    by (auto simp: or_str_def trim_def is_ws_def str_def)
  have f2: "company c2 = str ''Acme''"
    using c2 by (auto simp: transformLinkedInDataWithPhone_def only_a_name_def no_fields_def
        or_str_def str_def)
  have ne: "str ''Ada Byron'' \<noteq> []" "str ''Acme'' \<noteq> []" by (simp_all add: str_def)
  from r1 f1 have "saved (process_profile stuck_service (str ''u1'') ?inp (Some only_a_name) (batch_of 1)) = []"
    and "results (res (process_profile stuck_service (str ''u1'') ?inp (Some only_a_name) (batch_of 1))) =
      [Item_failed (str ''https://www.linkedin.com/in/ada'') insufficient]"
    by (simp_all add: batch_of_def no_contact_info_def)
  moreover from r2 n2 f2 ne
  have "saved (process_profile stuck_service (str ''u1'') ?inp (Some ?p2) (batch_of 1)) = [c2]"
    by (simp add: batch_of_def)
  ultimately show ?thesis using f2 by simp
qed

lemma poll_result:
  "poll f s a w = Inr (s', a', w') \<Longrightarrow>
     a \<le> a' \<and> a' \<le> max a maxAttempts \<and> w' = w + 3000 * (a' - a) \<and>
     (s' \<noteq> str ''RUNNING'' \<or> maxAttempts \<le> a')"
proof (induction f s a w rule: poll.induct)
  case (1 status_of runStatus attempts waited)
  show ?case
  proof (cases "runStatus = str ''RUNNING'' \<and> attempts < maxAttempts")
    case False
    with "1.prems" show ?thesis
      by (subst (asm) poll.simps) auto
  next
    case True
    with "1.prems" obtain status where st: "status_of attempts = Ok status"
      and rec: "poll status_of status (attempts + 1) (waited + 3000) = Inr (s', a', w')"
      by (subst (asm) poll.simps) (auto split: reply.splits)
    from "1.IH" [OF True st rec] True show ?thesis by auto
  qed
qed

lemma poll_still_running:
  "(\<And>i. i < maxAttempts \<Longrightarrow> f i = Ok (str ''RUNNING'')) \<Longrightarrow> a \<le> maxAttempts \<Longrightarrow>
     poll f (str ''RUNNING'') a w = Inr (str ''RUNNING'', maxAttempts, w + 3000 * (maxAttempts - a))"
proof (induction "maxAttempts - a" arbitrary: a w)
  case 0
  then have "a = maxAttempts" by simp
  then show ?case by (subst poll.simps) simp
next
  case (Suc n)
  then have lt: "a < maxAttempts" by simp
  with Suc.prems have f: "f a = Ok (str ''RUNNING'')" by blast
  from Suc.hyps(2) have "n = maxAttempts - (a + 1)" by simp
  from Suc.hyps(1) [OF this Suc.prems(1)] lt
  have "poll f (str ''RUNNING'') (a + 1) (w + 3000) =
      Inr (str ''RUNNING'', maxAttempts, w + 3000 + 3000 * (maxAttempts - (a + 1)))"
    by simp
  moreover from lt have "w + 3000 + 3000 * (maxAttempts - (a + 1)) = w + 3000 * (maxAttempts - a)"
    by (simp add: diff_mult_distrib2)
  ultimately show ?case using lt f by (subst poll.simps) simp
qed

lemma foldl_mark_failed:
  "foldl mark_failed b ps =
     b \<lparr> res := (res b) \<lparr> processed := processed (res b) + length ps,
                          failed := failed (res b) + length ps,
                          results := results (res b) @
                            map (\<lambda>p. Item_failed (in_url p) service_failed) ps \<rparr> \<rparr>"
proof (induction ps arbitrary: b)
  case Nil
  then show ?case by simp
next
  case (Cons p ps)
  show ?case by (simp add: Cons.IH) (simp add: mark_failed_def)
qed


lemma scrape_fails:
  "(\<exists>m. start_run e (map in_url vps) = Fails m) \<or> (\<exists>n. start_run e (map in_url vps) = Not_ok n) \<or>
   (\<exists>err. poll (run_status e) (str ''RUNNING'') 0 0 = Inl err) \<or>
   (\<exists>status a w. poll (run_status e) (str ''RUNNING'') 0 0 = Inr (status, a, w) \<and>
      status \<noteq> str ''SUCCEEDED'') \<or>
   (\<exists>m. dataset_items e = Fails m) \<or> (\<exists>n. dataset_items e = Not_ok n) \<Longrightarrow>
   \<exists>err. scrape e vps = Inl err"
  by (auto simp: scrape_def split: reply.splits sum.splits)

lemma scrape_linkedin_failed:
  assumes "req_profilesData req = Some ds" "validProfiles_of ds \<noteq> []"
    "or_str (req_userId req) [] \<noteq> []" "or_str (apiToken e) [] \<noteq> []"
    "scrape e (validProfiles_of ds) = Inl err"
  shows "scrape_linkedin e req st =
      (Scraped \<lparr> total = length (validProfiles_of ds), processed = length (validProfiles_of ds),
                 successful = 0, failed = length (validProfiles_of ds),
                 results = map (\<lambda>p. Item_failed (in_url p) service_failed) (validProfiles_of ds) \<rparr> 0,
       st)"
proof -
  from assms(2) have "ds \<noteq> []" by (auto simp: validProfiles_of_def)
  with assms show ?thesis
    by (simp add: scrape_linkedin_def Let_def foldl_mark_failed)
qed

text \<open>
  Claim C6. When the request passes validation and the part before the processing fails,
  the response has status 200 and reports every validated descriptor as failed with the
  message \<open>LinkedIn scraping service failed\<close>, with \<open>total = processed = failed\<close> the number
  of descriptors, no success and no points, and nothing is posted to \<open>/profiles\<close>. That
  part fails when the start of the run or the fetch of the items rejects or is not \<open>ok\<close>,
  when a status request fails, and when polling ends with a status other than
  \<open>SUCCEEDED\<close>. Polling makes at most 60 requests, 3000 ms apart, and a run that is
  still \<open>RUNNING\<close> at each of them ends polling after the 60th with status \<open>RUNNING\<close>.
\<close>

theorem service_failure_marks_all_failed:
  "(req_profilesData req = Some ds \<and> validProfiles_of ds \<noteq> [] \<and> or_str (req_userId req) [] \<noteq> [] \<and>
    or_str (apiToken e) [] \<noteq> [] \<and> scrape e (validProfiles_of ds) = Inl err \<longrightarrow>
      scrape_linkedin e req st =
        (Scraped \<lparr> total = length (validProfiles_of ds), processed = length (validProfiles_of ds),
                   successful = 0, failed = length (validProfiles_of ds),
                   results = map (\<lambda>p. Item_failed (in_url p) service_failed) (validProfiles_of ds) \<rparr> 0,
         st)) \<and>
   ((\<exists>m. start_run e (map in_url vps) = Fails m) \<or> (\<exists>n. start_run e (map in_url vps) = Not_ok n) \<or>
    (\<exists>err. poll (run_status e) (str ''RUNNING'') 0 0 = Inl err) \<or>
    (\<exists>status a w. poll (run_status e) (str ''RUNNING'') 0 0 = Inr (status, a, w) \<and>
       status \<noteq> str ''SUCCEEDED'') \<or>
    (\<exists>m. dataset_items e = Fails m) \<or> (\<exists>n. dataset_items e = Not_ok n)
      \<longrightarrow> (\<exists>err. scrape e vps = Inl err)) \<and>
   (poll (run_status e) (str ''RUNNING'') 0 0 = Inr (status, attempts, waited)
      \<longrightarrow> attempts \<le> 60 \<and> waited = 3000 * attempts) \<and>
   ((\<forall>i<60. run_status e i = Ok (str ''RUNNING''))
      \<longrightarrow> poll (run_status e) (str ''RUNNING'') 0 0 = Inr (str ''RUNNING'', 60, 180000))"
proof (intro conjI impI)
  assume "req_profilesData req = Some ds \<and> validProfiles_of ds \<noteq> [] \<and>
    or_str (req_userId req) [] \<noteq> [] \<and> or_str (apiToken e) [] \<noteq> [] \<and>
    scrape e (validProfiles_of ds) = Inl err"
  then show "scrape_linkedin e req st =
        (Scraped \<lparr> total = length (validProfiles_of ds), processed = length (validProfiles_of ds),
                   successful = 0, failed = length (validProfiles_of ds),
                   results = map (\<lambda>p. Item_failed (in_url p) service_failed) (validProfiles_of ds) \<rparr> 0,
         st)"
    using scrape_linkedin_failed by blast
next
  assume "(\<exists>m. start_run e (map in_url vps) = Fails m) \<or> (\<exists>n. start_run e (map in_url vps) = Not_ok n) \<or>
    (\<exists>err. poll (run_status e) (str ''RUNNING'') 0 0 = Inl err) \<or>
    (\<exists>status a w. poll (run_status e) (str ''RUNNING'') 0 0 = Inr (status, a, w) \<and>
       status \<noteq> str ''SUCCEEDED'') \<or>
    (\<exists>m. dataset_items e = Fails m) \<or> (\<exists>n. dataset_items e = Not_ok n)"
  then show "\<exists>err. scrape e vps = Inl err" by (rule scrape_fails)
next
  assume p: "poll (run_status e) (str ''RUNNING'') 0 0 = Inr (status, attempts, waited)"
  from poll_result [OF p] show "attempts \<le> 60" by (simp add: maxAttempts_def)
  from poll_result [OF p] show "waited = 3000 * attempts" by simp
next
  assume "\<forall>i<60. run_status e i = Ok (str ''RUNNING'')"
  then have "\<And>i. i < maxAttempts \<Longrightarrow> run_status e i = Ok (str ''RUNNING'')"
    by (simp add: maxAttempts_def)
  from poll_still_running [where a = 0 and w = 0, OF this]
  show "poll (run_status e) (str ''RUNNING'') 0 0 = Inr (str ''RUNNING'', 60, 180000)"
    by (simp add: maxAttempts_def)
qed

theorem service_failure_marks_all_failed_witness:
  "scrape_linkedin stuck_service two_profiles_and_a_stray u1_has_dashboard =
     (Scraped \<lparr> total = 2, processed = 2, successful = 0, failed = 2,
                results = [Item_failed (str ''https://www.linkedin.com/in/ada'') service_failed,
                           Item_failed (str ''https://www.linkedin.com/pub/bob'') service_failed] \<rparr> 0,
      u1_has_dashboard)"
proof -
  let ?ds = "[descriptor (str ''https://www.linkedin.com/in/ada ''),
              descriptor (str ''https://example.com/x''),
              descriptor (str ''https://www.linkedin.com/pub/bob'')]"
  have ds: "req_profilesData two_profiles_and_a_stray = Some ?ds"
    by (simp add: two_profiles_and_a_stray_def)
  have vps: "validProfiles_of ?ds =
      [no_contact_info (str ''https://www.linkedin.com/in/ada''),
       no_contact_info (str ''https://www.linkedin.com/pub/bob'')]"
    by code_simp
  have uid: "or_str (req_userId two_profiles_and_a_stray) [] \<noteq> []"
    by (simp add: two_profiles_and_a_stray_def or_str_def str_def)
  have tok: "or_str (apiToken stuck_service) [] \<noteq> []"
    by (simp add: stuck_service_def or_str_def str_def)
  have "\<forall>i<60. run_status stuck_service i = Ok (str ''RUNNING'')"
    by (simp add: stuck_service_def)
  with service_failure_marks_all_failed [of _ _ stuck_service]
  have "poll (run_status stuck_service) (str ''RUNNING'') 0 0 = Inr (str ''RUNNING'', 60, 180000)"
    by blast
  moreover have "str ''RUNNING'' \<noteq> str ''SUCCEEDED''" by (simp add: str_def)
  ultimately have "scrape stuck_service (validProfiles_of ?ds) =
      Inl (Error (str ''Scraping failed with status: '' @ str ''RUNNING''))"
    by (simp add: scrape_def stuck_service_def)
  with service_failure_marks_all_failed [of two_profiles_and_a_stray ?ds stuck_service _
      u1_has_dashboard] ds uid tok vps
  show ?thesis by (simp add: no_contact_info_def)
qed

lemma counted_process_profile: "counted b \<Longrightarrow> counted (process_profile e uid inp pd b)"
  by (auto simp: counted_def process_profile_def item_failed_def item_saved_def Let_def
      split: option.splits sum.splits)

lemma counted_process_all: "counted b \<Longrightarrow> counted (process_all e uid items i inps b)"
  by (induction inps arbitrary: i b) (simp_all add: counted_process_profile)

lemma counted_mark_failed: "counted b \<Longrightarrow> counted (foldl mark_failed b ps)"
  by (simp add: foldl_mark_failed counted_def comp_def)

lemma scrape_linkedin_state:
  "dashboards (snd (scrape_linkedin e req st)) = dashboards st \<and>
   profiles (snd (scrape_linkedin e req st)) = profiles st"
  by (simp add: scrape_linkedin_def Let_def split: option.splits)

lemma scrape_linkedin_cases:
  "(\<exists>n m. fst (scrape_linkedin e req st) = Rejected n m) \<or>
   (\<exists>B. counted B \<and> fst (scrape_linkedin e req st) = Scraped (res B) (successful (res B) * 10))"
proof -
  have c0: "counted \<lparr> res = \<lparr> total = n, processed = 0, successful = 0, failed = 0, results = [] \<rparr>,
                       saved = [] \<rparr>" for n
    by (simp add: counted_def)
  show ?thesis
  proof (cases "\<exists>ds. req_profilesData req = Some ds \<and> ds \<noteq> [] \<and> or_str (req_userId req) [] \<noteq> [] \<and>
      validProfiles_of ds \<noteq> [] \<and> or_str (apiToken e) [] \<noteq> []")
    case False
    then have "\<exists>n m. fst (scrape_linkedin e req st) = Rejected n m"
      by (auto simp: scrape_linkedin_def Let_def split: option.splits)
    then show ?thesis by blast
  next
    case True
    then obtain ds where ds: "req_profilesData req = Some ds" "ds \<noteq> []"
      "or_str (req_userId req) [] \<noteq> []" "validProfiles_of ds \<noteq> []" "or_str (apiToken e) [] \<noteq> []"
      by blast
    let ?b0 = "\<lparr> res = \<lparr> total = length (validProfiles_of ds), processed = 0, successful = 0,
                           failed = 0, results = [] \<rparr>, saved = [] \<rparr>"
    show ?thesis
    proof (cases "scrape e (validProfiles_of ds)")
      case (Inl err)
      let ?B = "foldl mark_failed ?b0 (validProfiles_of ds)"
      have "counted ?B" using c0 by (rule counted_mark_failed)
      moreover have "fst (scrape_linkedin e req st) = Scraped (res ?B) (successful (res ?B) * 10)"
        using ds Inl by (simp add: scrape_linkedin_def Let_def)
      ultimately show ?thesis by blast
    next
      case (Inr items)
      let ?B = "process_all e (or_str (req_userId req) []) items 0 (validProfiles_of ds) ?b0"
      have "counted ?B" using c0 by (rule counted_process_all)
      moreover have "fst (scrape_linkedin e req st) = Scraped (res ?B) (successful (res ?B) * 10)"
        using ds Inr by (simp add: scrape_linkedin_def Let_def)
      ultimately show ?thesis by blast
    qed
  qed
qed

text \<open>
  Claim C9. The scrape endpoint leaves every dashboard (and the stored profiles) as they
  were, and a response with results reports as \<open>pointsEarned\<close> 10 times the number of
  results with status \<open>success\<close>, which is the counter \<open>successful\<close>.
\<close>

theorem points_reported_not_credited:
  "dashboards (snd (scrape_linkedin e req st)) = dashboards st \<and>
   profiles (snd (scrape_linkedin e req st)) = profiles st \<and>
   (\<forall>r pts. fst (scrape_linkedin e req st) = Scraped r pts \<longrightarrow>
      pts = 10 * length (filter is_success (results r)) \<and>
      successful r = length (filter is_success (results r)))"
proof (intro conjI allI impI)
  show "dashboards (snd (scrape_linkedin e req st)) = dashboards st"
    and "profiles (snd (scrape_linkedin e req st)) = profiles st"
    using scrape_linkedin_state by blast+
next
  fix r pts assume a: "fst (scrape_linkedin e req st) = Scraped r pts"
  with scrape_linkedin_cases [of e req st]
  obtain B where "counted B" "r = res B" "pts = successful (res B) * 10" by auto
  then show "pts = 10 * length (filter is_success (results r))"
    and "successful r = length (filter is_success (results r))"
    by (simp_all add: counted_def)
qed

theorem points_reported_not_credited_witness:
  "fst (scrape_linkedin (working_service [Some engineer_since_2018, None])
          two_profiles_and_a_stray u1_has_dashboard) =
     Scraped \<lparr> total = 2, processed = 2, successful = 1, failed = 1,
               results = [Item_success (str ''https://www.linkedin.com/in/ada'') (str ''Ada'')
                            (str ''Engineer'') (str ''Acme'') [],
                          Item_failed (str ''https://www.linkedin.com/pub/bob'')
                            (str ''No profile data received'')] \<rparr> 10 \<and>
   map_option availablePoints
     (dashboards (snd (scrape_linkedin (working_service [Some engineer_since_2018, None])
          two_profiles_and_a_stray u1_has_dashboard)) (str ''u1'')) = Some 100"
proof -
  have "fst (scrape_linkedin (working_service [Some engineer_since_2018, None])
          two_profiles_and_a_stray u1_has_dashboard) =
     Scraped \<lparr> total = 2, processed = 2, successful = 1, failed = 1,
               results = [Item_success (str ''https://www.linkedin.com/in/ada'') (str ''Ada'')
                            (str ''Engineer'') (str ''Acme'') [],
                          Item_failed (str ''https://www.linkedin.com/pub/bob'')
                            (str ''No profile data received'')] \<rparr> 10"
    by code_simp
  moreover have "map_option availablePoints (dashboards u1_has_dashboard (str ''u1'')) = Some 100"
    by (simp add: u1_has_dashboard_def no_data_def new_dashboard_def)
  ultimately show ?thesis
    using points_reported_not_credited [of "working_service [Some engineer_since_2018, None]"
        two_profiles_and_a_stray u1_has_dashboard]
    by simp
qed

end
